theory Spec2Isabelle
  imports Complex_Main "HOL-Library.Log_Nat"
begin

section \<open>Text of a post\<close>

text \<open>
  A Python \<open>str\<close> is a sequence of Unicode code points and \<open>len\<close> counts code points, so a
  text is a list of code points (natural numbers).  ASCII literals are written as Isabelle
  strings and converted with \<open>cps\<close>.
\<close>

type_synonym codepoint = nat
type_synonym pystr = "codepoint list"

definition cps :: "string \<Rightarrow> pystr" where
  "cps s = map of_char s"

text \<open>
  \<open>utils/text_processor.py\<close> relies on three tables of the Python runtime that are not part
  of the repository.

  \<^item> Whitespace (\<open>str.isspace\<close>, used by \<open>str.strip()\<close>, \<open>str.split()\<close> and by \<open>\s\<close> in a
    \<open>str\<close> pattern of \<open>re\<close>): a short fixed list, written out in \<open>py_isspace\<close>.
  \<^item> Word characters (\<open>\w\<close> in a \<open>str\<close> pattern: \<open>str.isalnum\<close> or the underscore): below
    128 these are the ASCII letters, digits and \<open>_\<close>; from 128 on the table is a parameter.
  \<^item> \<open>unicodedata.normalize('NFKC', _)\<close>: the identity on a text of ASCII code points; on
    any other text it is a parameter.

  A fourth table, the uppercase letters from 128 on, is not used by the source; it serves
  to state what the specification calls an uppercase letter.
\<close>

record unicode_tables =
  alnum_high :: "codepoint \<Rightarrow> bool"
  nfkc_high :: "pystr \<Rightarrow> pystr"
  upper_high :: "codepoint \<Rightarrow> bool"

definition py_isspace :: "codepoint \<Rightarrow> bool" where
  "py_isspace c \<longleftrightarrow>
     (0x09 \<le> c \<and> c \<le> 0x0D) \<or> (0x1C \<le> c \<and> c \<le> 0x20) \<or> c = 0x85 \<or> c = 0xA0 \<or>
     c = 0x1680 \<or> (0x2000 \<le> c \<and> c \<le> 0x200A) \<or> c = 0x2028 \<or> c = 0x2029 \<or>
     c = 0x202F \<or> c = 0x205F \<or> c = 0x3000"

definition ascii_upper :: "codepoint \<Rightarrow> bool" where
  "ascii_upper c \<longleftrightarrow> 0x41 \<le> c \<and> c \<le> 0x5A"

definition ascii_lower :: "codepoint \<Rightarrow> bool" where
  "ascii_lower c \<longleftrightarrow> 0x61 \<le> c \<and> c \<le> 0x7A"

definition ascii_digit :: "codepoint \<Rightarrow> bool" where
  "ascii_digit c \<longleftrightarrow> 0x30 \<le> c \<and> c \<le> 0x39"

definition is_word :: "unicode_tables \<Rightarrow> codepoint \<Rightarrow> bool" where
  "is_word U c \<longleftrightarrow>
     (if c < 128 then ascii_upper c \<or> ascii_lower c \<or> ascii_digit c \<or> c = 0x5F
      else alnum_high U c)"

definition nfkc :: "unicode_tables \<Rightarrow> pystr \<Rightarrow> pystr" where
  "nfkc U s = (if list_all (\<lambda>c. c < 128) s then s else nfkc_high U s)"

definition is_upper :: "unicode_tables \<Rightarrow> codepoint \<Rightarrow> bool" where
  "is_upper U c \<longleftrightarrow> (if c < 128 then ascii_upper c else upper_high U c)"

text \<open>
  A fragment of the Unicode tables for evaluating concrete inputs.  It agrees with Unicode
  on the ASCII code points, on U+00C9 LATIN CAPITAL LETTER E WITH ACUTE, an uppercase
  letter that normalisation leaves unchanged, and on U+2026 HORIZONTAL ELLIPSIS, no letter
  and of compatibility decomposition three full stops (U+002E).  It is only ever applied to
  texts of these code points, and its normalisation only to ASCII texts and to the
  one-character text U+2026.
\<close>

definition ucd_fragment :: unicode_tables where
  "ucd_fragment =
     \<lparr>alnum_high = (\<lambda>c. c = 0xC9),
      nfkc_high = (\<lambda>s. if s = [0x2026] then [0x2E, 0x2E, 0x2E] else s),
      upper_high = (\<lambda>c. c = 0xC9)\<rparr>"

section \<open>TextProcessor.clean\_text\<close>

text \<open>
  \<open>re.sub(r'\s+', ' ', text)\<close>: every maximal run of whitespace becomes one space (U+0020).
\<close>

function collapse_ws :: "pystr \<Rightarrow> pystr" where
  "collapse_ws [] = []"
| "collapse_ws (c # cs) =
     (if py_isspace c then 0x20 # collapse_ws (dropWhile py_isspace cs)
      else c # collapse_ws cs)"
  by pat_completeness auto
termination
  by (relation "measure length") (auto simp: length_dropWhile_le less_Suc_eq_le)

text \<open>\<open>str.strip()\<close> without argument removes leading and trailing whitespace.\<close>

definition strip :: "pystr \<Rightarrow> pystr" where
  "strip s = rev (dropWhile py_isspace (rev (dropWhile py_isspace s)))"

text \<open>
  The character class of \<open>re.sub(r'[^\w\s@#.,!?;:()\-_\'"]', '', text)\<close>: a character is
  kept when it is a word character, whitespace, or one of
  \<open>@ # . , ! ? ; : ( ) - _ ' "\<close>.
\<close>

definition allowed_punct :: "codepoint list" where
  "allowed_punct =
     [0x40, 0x23, 0x2E, 0x2C, 0x21, 0x3F, 0x3B, 0x3A, 0x28, 0x29, 0x2D, 0x5F, 0x27, 0x22]"

definition allowed :: "unicode_tables \<Rightarrow> codepoint \<Rightarrow> bool" where
  "allowed U c \<longleftrightarrow> is_word U c \<or> py_isspace c \<or> c \<in> set allowed_punct"

definition clean_text :: "unicode_tables \<Rightarrow> pystr \<Rightarrow> pystr" where
  "clean_text U text =
     (if text = [] then []
      else filter (allowed U) (strip (collapse_ws (nfkc U text))))"


section \<open>Extraction of hashtags, mentions and URLs\<close>

text \<open>
  \<open>re.findall(r'#(\w+)', text)\<close> and \<open>re.findall(r'@(\w+)', text)\<close>: the scan goes from left
  to right; where the marker is followed by at least one word character the match takes the
  whole run of word characters (\<open>+\<close> is greedy) and the scan resumes behind it, otherwise it
  moves on by one character.  The result lists the captured groups, the runs without marker.
\<close>

function findall_tagged :: "unicode_tables \<Rightarrow> codepoint \<Rightarrow> pystr \<Rightarrow> pystr list" where
  "findall_tagged U m [] = []"
| "findall_tagged U m (c # cs) =
     (if c = m \<and> takeWhile (is_word U) cs \<noteq> []
      then takeWhile (is_word U) cs # findall_tagged U m (dropWhile (is_word U) cs)
      else findall_tagged U m cs)"
  by pat_completeness auto
termination
  by (relation "measure (\<lambda>(U, m, s). length s)")
     (auto simp: length_dropWhile_le less_Suc_eq_le)

text \<open>
  The URL pattern
  \<open>http[s]?://(?:[a-zA-Z]|[0-9]|[$-_@.&+]|[!*\\(\\),]|(?:%[0-9a-fA-F][0-9a-fA-F]))+\<close>.
  Each round of the group consumes one character of the first four alternatives; \<open>$-_\<close> is
  the range U+0024 to U+005F.  The fifth alternative starts with \<open>%\<close> (U+0025), which the third
  one has already taken, so it never applies.  Nothing follows the group, hence a match is
  the scheme followed by the longest non-empty run of such characters.
\<close>

definition url_char :: "codepoint \<Rightarrow> bool" where
  "url_char c \<longleftrightarrow>
     (ascii_lower c \<or> ascii_upper c) \<or> ascii_digit c \<or>
     ((0x24 \<le> c \<and> c \<le> 0x5F) \<or> c = 0x40 \<or> c = 0x2E \<or> c = 0x26 \<or> c = 0x2B) \<or>
     (c = 0x21 \<or> c = 0x2A \<or> c = 0x5C \<or> c = 0x28 \<or> c = 0x29 \<or> c = 0x2C)"

definition match_scheme :: "pystr \<Rightarrow> pystr option" where
  "match_scheme s =
     (if take 4 s = cps ''http''
      then (let opt_s = (if take 1 (drop 4 s) = cps ''s'' then cps ''s'' else [])
            in if take 3 (drop (4 + length opt_s) s) = cps ''://''
               then Some (cps ''http'' @ opt_s @ cps ''://'')
               else None)
      else None)"

definition match_url :: "pystr \<Rightarrow> pystr option" where
  "match_url s =
     (case match_scheme s of
        None \<Rightarrow> None
      | Some scheme \<Rightarrow>
          (let body = takeWhile url_char (drop (length scheme) s)
           in if body \<noteq> [] then Some (scheme @ body) else None))"

text \<open>
  \<open>re.findall\<close> with the URL pattern (no capturing group: the whole matches are listed).
  After a match \<open>u\<close>, a prefix of the remaining text, the scan resumes behind it.
\<close>

function findall_urls :: "pystr \<Rightarrow> pystr list" where
  "findall_urls [] = []"
| "findall_urls (c # cs) =
     (case match_url (c # cs) of
        Some u \<Rightarrow> u # findall_urls (drop (length u - 1) cs)
      | None \<Rightarrow> findall_urls cs)"
  by pat_completeness auto
termination
  by (relation "measure length") (auto simp: less_Suc_eq_le)

text \<open>
  \<open>list(set(xs))\<close> lists each element once, in an order the source does not fix.  The model
  fixes one order, that of \<open>remdups\<close>; only the elements and their number are used below.
\<close>

definition extract_hashtags :: "unicode_tables \<Rightarrow> pystr \<Rightarrow> pystr list" where
  "extract_hashtags U text = remdups (findall_tagged U 0x23 text)"

definition extract_mentions :: "unicode_tables \<Rightarrow> pystr \<Rightarrow> pystr list" where
  "extract_mentions U text = remdups (findall_tagged U 0x40 text)"

definition extract_urls :: "pystr \<Rightarrow> pystr list" where
  "extract_urls text = remdups (findall_urls text)"

section \<open>TextProcessor.get\_text\_stats\<close>

text \<open>\<open>str.split()\<close> without argument: the maximal runs of non-whitespace characters.\<close>

function py_split :: "pystr \<Rightarrow> pystr list" where
  "py_split [] = []"
| "py_split (c # cs) =
     (if py_isspace c then py_split cs
      else takeWhile (\<lambda>d. \<not> py_isspace d) (c # cs)
             # py_split (dropWhile (\<lambda>d. \<not> py_isspace d) cs))"
  by pat_completeness auto
termination
  by (relation "measure length") (auto simp: length_dropWhile_le less_Suc_eq_le)

record text_stats =
  original_length :: nat
  cleaned_length :: nat
  word_count :: nat
  character_count :: nat
  hashtag_count :: nat
  mention_count :: nat
  url_count :: nat
  hashtags :: "pystr list"
  mentions :: "pystr list"
  urls :: "pystr list"

definition get_text_stats :: "unicode_tables \<Rightarrow> pystr \<Rightarrow> text_stats" where
  "get_text_stats U text =
     (let cleaned_text = clean_text U text
      in \<lparr>original_length = length text,
          cleaned_length = length cleaned_text,
          word_count = length (py_split cleaned_text),
          character_count = length cleaned_text,
          hashtag_count = length (extract_hashtags U text),
          mention_count = length (extract_mentions U text),
          url_count = length (extract_urls text),
          hashtags = extract_hashtags U text,
          mentions = extract_mentions U text,
          urls = extract_urls text\<rparr>)"

section \<open>Double-precision products with an integer\<close>

text \<open>
  \<open>len(text) * 0.7\<close>, \<open>len(text) * 0.1\<close> and \<open>max_length * 0.8\<close> multiply a Python \<open>int\<close> by
  a \<open>float\<close> literal: the integer is converted to a double, the product is rounded to a
  double, and the comparison of an \<open>int\<close> with that double is exact.  A finite double is
  represented by a pair \<open>(m, e)\<close> of integers standing for \<open>m * 2 ^ e\<close>.

  \<open>round53\<close> rounds to 53 significant bits, ties to even, which is the rounding of IEEE 754
  binary64 for every value in the normal range.  All values below are zero or lie between
  \<open>0.1\<close> and \<open>2 ^ 1024\<close>, inside that range.
\<close>

type_synonym dfloat = "int \<times> int"

definition round53 :: "dfloat \<Rightarrow> dfloat" where
  "round53 x =
     (case x of (m, e) \<Rightarrow>
        if bitlen \<bar>m\<bar> \<le> 53 then (m, e)
        else (let s = nat (bitlen \<bar>m\<bar> - 53);
                  q = \<bar>m\<bar> div 2 ^ s;
                  r = \<bar>m\<bar> mod 2 ^ s;
                  q' = (if 2 * r > 2 ^ s \<or> (2 * r = 2 ^ s \<and> odd q) then q + 1 else q)
              in (sgn m * q', e + int s)))"

definition float_mul :: "dfloat \<Rightarrow> dfloat \<Rightarrow> dfloat" where
  "float_mul x y = (case x of (m1, e1) \<Rightarrow> case y of (m2, e2) \<Rightarrow> round53 (m1 * m2, e1 + e2))"

text \<open>The exact comparison \<open>k > x\<close> of an integer with a double.\<close>

definition int_gt_float :: "int \<Rightarrow> dfloat \<Rightarrow> bool" where
  "int_gt_float k x =
     (case x of (m, e) \<Rightarrow> if 0 \<le> e then k > m * 2 ^ nat e else k * 2 ^ nat (- e) > m)"

text \<open>
  The literals: \<open>0.7\<close> is the double \<open>0x1.6666666666666p-1\<close>, \<open>0.1\<close> is
  \<open>0x1.999999999999ap-4\<close> and \<open>0.8\<close> is \<open>0x1.999999999999ap-1\<close>.
\<close>

definition float_0_7 :: dfloat where
  "float_0_7 = (6305039478318694, - 53)"

definition float_0_1 :: dfloat where
  "float_0_1 = (7205759403792794, - 56)"

definition float_0_8 :: dfloat where
  "float_0_8 = (7205759403792794, - 53)"

text \<open>
  The conversion of a length: \<open>len\<close> is at most \<open>sys.maxsize\<close>, far below the largest double,
  so this conversion cannot overflow.
\<close>

definition float_of_len :: "nat \<Rightarrow> dfloat" where
  "float_of_len n = round53 (int n, 0)"

text \<open>
  Raised exceptions are values.  All of them are instances of the Python class \<open>Exception\<close>
  (\<open>OverflowError\<close> and \<open>KeyError\<close> are subclasses); interrupts of the interpreter such as
  \<open>KeyboardInterrupt\<close> are not modelled.
\<close>

datatype exn = OverflowError | KeyError | Exception string

text \<open>
  The conversion of an arbitrary \<open>int\<close> raises \<open>OverflowError\<close> (``int too large to convert to
  float'') when the rounded value reaches \<open>2 ^ 1024\<close>.
\<close>

definition float_of_int :: "int \<Rightarrow> exn + dfloat" where
  "float_of_int n =
     (case round53 (n, 0) of (m, e) \<Rightarrow>
        if \<bar>m\<bar> * 2 ^ nat e \<ge> 2 ^ 1024 then Inl OverflowError else Inr (m, e))"

section \<open>TextProcessor.validate\_post\<close>

text \<open>
  \<open>re.search(r'(.)\1{3,}', text)\<close>: some character other than the newline (\<open>.\<close> does not match
  U+000A) occurs four times in a row.
\<close>

fun repeated_char :: "pystr \<Rightarrow> bool" where
  "repeated_char (a # b # c # d # cs) =
     ((a \<noteq> 0x0A \<and> a = b \<and> b = c \<and> c = d) \<or> repeated_char (b # c # d # cs))"
| "repeated_char cs = False"

text \<open>The loop over \<open>range(len(words) - 2)\<close>: three equal words in a row.\<close>

fun repeated_word :: "pystr list \<Rightarrow> bool" where
  "repeated_word (a # b # c # ws) = ((a = b \<and> b = c) \<or> repeated_word (b # c # ws))"
| "repeated_word ws = False"

definition has_excessive_repetition :: "pystr \<Rightarrow> bool" where
  "has_excessive_repetition text \<longleftrightarrow>
     (if repeated_char text then True
      else if repeated_word (py_split text) then True
      else False)"

text \<open>
  \<open>re.findall(r'[A-Z]', text)\<close> and \<open>re.findall(r'[!?]', text)\<close> list the matching characters;
  \<open>re.findall(r'#\w+', text)\<close> lists the hashtags with their marker.
\<close>

definition upper_matches :: "pystr \<Rightarrow> pystr" where
  "upper_matches text = filter ascii_upper text"

definition punct_matches :: "pystr \<Rightarrow> pystr" where
  "punct_matches text = filter (\<lambda>c. c = 0x21 \<or> c = 0x3F) text"

definition hashtag_matches :: "unicode_tables \<Rightarrow> pystr \<Rightarrow> pystr list" where
  "hashtag_matches U text = map (\<lambda>w. 0x23 # w) (findall_tagged U 0x23 text)"

definition is_spam_like :: "unicode_tables \<Rightarrow> pystr \<Rightarrow> bool" where
  "is_spam_like U text \<longleftrightarrow>
     (if int_gt_float (int (length (upper_matches text)))
           (float_mul (float_of_len (length text)) float_0_7) then True
      else if int_gt_float (int (length (punct_matches text)))
           (float_mul (float_of_len (length text)) float_0_1) then True
      else if length (hashtag_matches U text) > 10 then True
      else False)"

text \<open>\<open>str(n)\<close> for an \<open>int\<close>, as the f-string of the length error prints the limit.\<close>

function show_nat :: "nat \<Rightarrow> string" where
  "show_nat n =
     (if n < 10 then [char_of (48 + n)]
      else show_nat (n div 10) @ [char_of (48 + n mod 10)])"
  by pat_completeness auto
termination
  by (relation "measure id") auto

definition show_int :: "int \<Rightarrow> string" where
  "show_int i = (if i < 0 then CHR ''-'' # show_nat (nat (- i)) else show_nat (nat i))"

definition err_empty :: string where
  "err_empty = ''Post cannot be empty''"

definition err_too_long :: "int \<Rightarrow> string" where
  "err_too_long max_length =
     ''Post exceeds maximum length of '' @ show_int max_length @ '' characters''"

definition err_too_short :: string where
  "err_too_short = ''Post must be at least 3 characters long''"

definition err_repetition :: string where
  "err_repetition = ''Post contains excessive repetition''"

definition err_spam :: string where
  "err_spam = ''Post appears to be spam-like''"

text \<open>
  \<open>validate_post\<close>; \<open>max_length\<close> is the field \<open>self.max_length\<close>, which the constructor
  reads from \<open>settings.max_post_length\<close> (an \<open>int\<close>, 280 unless configured otherwise).
\<close>

definition validate_post :: "unicode_tables \<Rightarrow> int \<Rightarrow> pystr \<Rightarrow> bool \<times> string list" where
  "validate_post U max_length text =
     (if text = [] \<or> strip text = [] then (False, [err_empty])
      else
        (let errors = [];
             errors = (if int (length text) > max_length
                       then errors @ [err_too_long max_length] else errors);
             errors = (if length (strip text) < 3 then errors @ [err_too_short] else errors);
             errors = (if has_excessive_repetition text
                       then errors @ [err_repetition] else errors);
             errors = (if is_spam_like U text then errors @ [err_spam] else errors)
         in (length errors = 0, errors)))"

text \<open>
  The spam-like rule as the specification words it, in exact arithmetic: uppercase letters
  exceed 70 percent of the length, or \<open>!\<close> and \<open>?\<close> exceed 10 percent of the length, or there are
  more than 10 hashtag occurrences.
\<close>

definition spam_like_spec :: "unicode_tables \<Rightarrow> pystr \<Rightarrow> bool" where
  "spam_like_spec U text \<longleftrightarrow>
     10 * length (filter (is_upper U) text) > 7 * length text \<or>
     10 * length (punct_matches text) > length text \<or>
     length (hashtag_matches U text) > 10"

section \<open>TextProcessor.truncate\_text\<close>

text \<open>
  The slice \<open>xs[:k]\<close>: a negative \<open>k\<close> counts from the end, and the bounds are clipped.
\<close>

definition py_slice_to :: "'a list \<Rightarrow> int \<Rightarrow> 'a list" where
  "py_slice_to xs k =
     (if k < 0 then take (nat (int (length xs) + k)) xs else take (nat k) xs)"

text \<open>
  \<open>s.rfind(c)\<close> for a single character: the highest index of \<open>c\<close>, or \<open>-1\<close>.  An
  occurrence in the rest of the text wins over one at its head.
\<close>

definition rfind_step :: "codepoint \<Rightarrow> codepoint \<Rightarrow> int \<Rightarrow> int" where
  "rfind_step c d r = (if 0 \<le> r then r + 1 else if d = c then 0 else - 1)"

fun rfind :: "codepoint \<Rightarrow> pystr \<Rightarrow> int" where
  "rfind c [] = - 1"
| "rfind c (d # ds) = rfind_step c d (rfind c ds)"

definition dots :: pystr where
  "dots = cps ''...''"

text \<open>
  \<open>truncate_text\<close>; \<open>self_max_length\<close> is the field \<open>self.max_length\<close> that replaces an absent
  argument.  The source has no \<open>raise\<close>; the only operation of the body that can fail is the
  conversion of \<open>max_length\<close> to a double in \<open>max_length * 0.8\<close>.
\<close>

definition truncate_text :: "int \<Rightarrow> pystr \<Rightarrow> int option \<Rightarrow> exn + pystr" where
  "truncate_text self_max_length text max_length_arg =
     (let max_length = (case max_length_arg of None \<Rightarrow> self_max_length | Some m \<Rightarrow> m)
      in if int (length text) \<le> max_length then Inr text
         else
           (let truncated = py_slice_to text (max_length - 3) @ dots;
                last_space = rfind 0x20 truncated
            in case float_of_int max_length of
                 Inl e \<Rightarrow> Inl e
               | Inr f \<Rightarrow>
                   if int_gt_float last_space (float_mul f float_0_8)
                   then Inr (py_slice_to truncated last_space @ dots)
                   else Inr truncated))"

text \<open>
  The operation as the specification words it: a text that fits is returned unchanged;
  otherwise the first \<open>max_length - 3\<close> characters are kept and, if a space lies at or after
  80 percent of \<open>max_length\<close> within that cut, the cut ends at its last space; then \<open>...\<close> is
  appended.
\<close>

definition truncate_spec :: "pystr \<Rightarrow> int \<Rightarrow> pystr" where
  "truncate_spec text max_length =
     (if int (length text) \<le> max_length then text
      else (let cut = take (nat (max_length - 3)) text;
                last_space = rfind 0x20 cut
            in if 0 \<le> last_space \<and> 4 * max_length \<le> 5 * last_space
               then take (nat last_space) cut @ dots
               else cut @ dots))"

section \<open>Double-precision arithmetic of the analyzer\<close>

text \<open>
  The scores of the analyzer are Python floats, IEEE 754 binary64 numbers.  A finite double
  is modelled by the rational number it denotes (the two zeros are one value, as they are
  for \<open>==\<close>, \<open><\<close>, \<open>min\<close> and \<open>max\<close>).  \<open>fl\<close> rounds a rational to the nearest double, ties to
  even: to 53 significant bits, and to a multiple of \<open>2 ^ -1074\<close> where that is coarser (the
  subnormal range).  \<open>binade x\<close> is the exponent of the power of two at or below \<open>\<bar>x\<bar>\<close>.

  Each arithmetic operation of the source is the exact operation followed by \<open>fl\<close>, and a
  decimal literal denotes the double nearest to it.  Negation, \<open>abs\<close>, \<open>min\<close>, \<open>max\<close> and the
  comparisons are exact.  Infinities and NaN are not modelled: TextBlob and VADER return
  finite scores, and on finite scores no operation of the analyzer exceeds the range of
  the doubles.
\<close>

definition round_half_even :: "rat \<Rightarrow> int" where
  "round_half_even y =
     (let f = \<lfloor>y\<rfloor>; d = y - of_int f
      in if d < 1 / 2 then f else if 1 / 2 < d then f + 1 else if even f then f else f + 1)"

definition binade :: "rat \<Rightarrow> int" where
  "binade x =
     (case quotient_of \<bar>x\<bar> of (n, d) \<Rightarrow>
        (let k = bitlen n - bitlen d in if 2 powi k \<le> \<bar>x\<bar> then k else k - 1))"

definition fl :: "rat \<Rightarrow> rat" where
  "fl x =
     (if x = 0 then 0
      else (let p = max (binade x - 52) (- 1074)
            in of_int (round_half_even (x / 2 powi p)) * 2 powi p))"

definition lit :: "rat \<Rightarrow> rat" where
  "lit x = fl x"

definition fmul :: "rat \<Rightarrow> rat \<Rightarrow> rat" where
  "fmul a b = fl (a * b)"

definition fadd :: "rat \<Rightarrow> rat \<Rightarrow> rat" where
  "fadd a b = fl (a + b)"

definition fsub :: "rat \<Rightarrow> rat \<Rightarrow> rat" where
  "fsub a b = fl (a - b)"

definition fdiv :: "rat \<Rightarrow> rat \<Rightarrow> rat" where
  "fdiv a b = fl (a / b)"

section \<open>SentimentAnalyzer\<close>

text \<open>
  TextBlob and VADER are external libraries: each is a function of the text that returns its
  scores, finite doubles, or raises an exception.
\<close>

definition classify_sentiment :: "rat \<Rightarrow> string \<times> rat" where
  "classify_sentiment score =
     (let positive_threshold = lit 0.1;
          negative_threshold = - lit 0.1
      in if score > positive_threshold
         then (''positive'',
               min 1 (fdiv (fsub score positive_threshold) (fsub 1 positive_threshold)))
         else if score < negative_threshold
         then (''negative'',
               min 1 (fdiv (fsub negative_threshold score) (fadd negative_threshold 1)))
         else (''neutral'', fsub 1 \<bar>score\<bar>))"

text \<open>
  The dictionary \<open>explanations\<close> of \<open>_generate_sentiment_explanation\<close>; a lookup with a key it
  does not hold raises \<open>KeyError\<close>.
\<close>

definition explanations :: "(string \<times> string list) list" where
  "explanations =
     [(''positive'',
       [''The post has a positive tone that could engage your audience well.'',
        ''This content conveys optimism and positivity.'',
        ''The language suggests a constructive and upbeat message.'']),
      (''negative'',
       [''The post may come across as negative or critical.'',
        ''This tone could potentially alienate some readers.'',
        ''Consider softening the language to be more constructive.'']),
      (''neutral'',
       [''The post has a balanced, neutral tone.'',
        ''This content is factual and objective.'',
        ''The tone is professional and measured.''])]"

definition generate_sentiment_explanation :: "string \<Rightarrow> rat \<Rightarrow> rat \<Rightarrow> exn + string" where
  "generate_sentiment_explanation classification score subjectivity =
     (case map_of explanations classification of
        None \<Rightarrow> Inl KeyError
      | Some sentences \<Rightarrow>
          (let base_explanation = sentences ! 0;
               base_explanation =
                 (if subjectivity > lit 0.7
                  then base_explanation @ '' The content is quite subjective and personal.''
                  else if subjectivity < lit 0.3
                  then base_explanation @ '' The content is objective and factual.''
                  else base_explanation);
               base_explanation =
                 (if \<bar>score\<bar> > lit 0.7
                  then base_explanation @ '' The sentiment is strongly expressed.''
                  else if \<bar>score\<bar> < lit 0.2
                  then base_explanation @ '' The sentiment is subtle and understated.''
                  else base_explanation)
           in Inr base_explanation))"

record textblob_scores =
  polarity :: rat
  subjectivity :: rat

record vader_scores =
  neg :: rat
  neu :: rat
  pos :: rat
  compound :: rat

record sentiment_libs =
  run_textblob :: "pystr \<Rightarrow> exn + textblob_scores"
  run_vader :: "pystr \<Rightarrow> exn + vader_scores"

definition combine_sentiment_scores :: "rat \<Rightarrow> vader_scores \<Rightarrow> rat" where
  "combine_sentiment_scores textblob_score vader_scores =
     (let vader_score = compound vader_scores;
          combined = fadd (fmul (lit 0.3) textblob_score) (fmul (lit 0.7) vader_score)
      in max (- 1) (min 1 combined))"

record sentiment_details =
  textblob :: textblob_scores
  vader :: vader_scores
  combined :: rat

record sentiment_record =
  sentiment :: string
  confidence :: rat
  score :: rat
  explanation :: string
  details :: sentiment_details

definition get_fallback_sentiment :: sentiment_record where
  "get_fallback_sentiment =
     \<lparr>sentiment = ''neutral'',
      confidence = 0.5,
      score = 0.0,
      explanation = ''Sentiment analysis was unable to process this text.'',
      details =
        \<lparr>textblob = \<lparr>polarity = 0.0, subjectivity = 0.5\<rparr>,
         vader = \<lparr>neg = 0.0, neu = 1.0, pos = 0.0, compound = 0.0\<rparr>,
         combined = 0.0\<rparr>\<rparr>"

text \<open>
  The body of the \<open>try\<close> block of \<open>analyze_sentiment\<close>: an exception of either library, or of
  the generation of the explanation, leaves the block.
\<close>

definition analyze_try :: "sentiment_libs \<Rightarrow> pystr \<Rightarrow> exn + sentiment_record" where
  "analyze_try L text =
     (case run_textblob L text of
        Inl e \<Rightarrow> Inl e
      | Inr blob \<Rightarrow>
          (case run_vader L text of
             Inl e \<Rightarrow> Inl e
           | Inr vader_scores \<Rightarrow>
               (let textblob_sentiment = polarity blob;
                    textblob_subjectivity = subjectivity blob;
                    combined_sentiment =
                      combine_sentiment_scores textblob_sentiment vader_scores
                in case classify_sentiment combined_sentiment of
                     (classification, conf) \<Rightarrow>
                       (case generate_sentiment_explanation classification
                               combined_sentiment textblob_subjectivity of
                          Inl e \<Rightarrow> Inl e
                        | Inr generated \<Rightarrow>
                            Inr \<lparr>sentiment = classification,
                                 confidence = conf,
                                 score = combined_sentiment,
                                 explanation = generated,
                                 details =
                                   \<lparr>textblob = \<lparr>polarity = textblob_sentiment,
                                                 subjectivity = textblob_subjectivity\<rparr>,
                                    vader = vader_scores,
                                    combined = combined_sentiment\<rparr>\<rparr>))))"

text \<open>
  \<open>analyze_sentiment\<close>: \<open>except Exception\<close> turns every exception of the block into the
  fallback record; the result is \<open>Inr\<close> when the call returns and would be \<open>Inl\<close> if it raised.
\<close>

definition analyze_sentiment :: "sentiment_libs \<Rightarrow> pystr \<Rightarrow> exn + sentiment_record" where
  "analyze_sentiment L text =
     (case analyze_try L text of
        Inl e \<Rightarrow> Inr get_fallback_sentiment
      | Inr r \<Rightarrow> Inr r)"

text \<open>
  \<open>clamp(x, lo, hi)\<close> as the specification uses it: \<open>x\<close> limited to the interval from \<open>lo\<close>
  to \<open>hi\<close>.
\<close>

definition clamp :: "rat \<Rightarrow> rat \<Rightarrow> rat \<Rightarrow> rat" where
  "clamp x lo hi = (if x < lo then lo else if hi < x then hi else x)"

text \<open>
  Two library behaviours for concrete runs: one where both libraries answer, and one where
  TextBlob raises, as in the unit test \<open>test_fallback_sentiment\<close>.
\<close>

definition libs_ok :: sentiment_libs where
  "libs_ok =
     \<lparr>run_textblob = (\<lambda>t. Inr \<lparr>polarity = 0.5, subjectivity = 0.75\<rparr>),
      run_vader = (\<lambda>t. Inr \<lparr>neg = 0.0, neu = 0.25, pos = 0.75, compound = 0.75\<rparr>)\<rparr>"

definition libs_failing :: sentiment_libs where
  "libs_failing =
     \<lparr>run_textblob = (\<lambda>t. Inl (Exception ''Test error'')),
      run_vader = (\<lambda>t. Inr \<lparr>neg = 0.0, neu = 0.25, pos = 0.75, compound = 0.75\<rparr>)\<rparr>"

text \<open>
  Library scores at which the rounding of the products decides the classification: the
  doubles nearest to \<open>-0.95\<close> and \<open>0.55\<close>, and those nearest to \<open>-0.6\<close> and \<open>0.4\<close>.
\<close>

definition libs_above_threshold :: sentiment_libs where
  "libs_above_threshold =
     \<lparr>run_textblob = (\<lambda>t. Inr \<lparr>polarity = lit (- 0.95), subjectivity = 0.5\<rparr>),
      run_vader = (\<lambda>t. Inr \<lparr>neg = 0.0, neu = 0.5, pos = 0.5, compound = lit 0.55\<rparr>)\<rparr>"

definition libs_below_threshold :: sentiment_libs where
  "libs_below_threshold =
     \<lparr>run_textblob = (\<lambda>t. Inr \<lparr>polarity = lit (- 0.6), subjectivity = 0.5\<rparr>),
      run_vader = (\<lambda>t. Inr \<lparr>neg = 0.0, neu = 0.5, pos = 0.5, compound = lit 0.4\<rparr>)\<rparr>"

text \<open>
  Two posts: one of 90 ASCII letters, 63 of them uppercase, which is exactly 70 percent; and
  the French word for summer in capitals, two of whose three uppercase letters are not
  ASCII.
\<close>

definition summer_post :: pystr where
  "summer_post = [0xC9, 0x54, 0xC9]"

definition shouting_post :: pystr where
  "shouting_post =
     cps ''ABCDEFGHIJKLMNOPQRSTUVWXYZABCDEFGHIJKLMNOPQRSTUVWXYZABCDEFGHIJKabcdefghijklmnopqrstuvwxyza''"

section \<open>Properties of clean\_text\<close>


subsection \<open>Length\<close>

lemma length_collapse_ws: "length (collapse_ws s) \<le> length s"
proof (induction s rule: collapse_ws.induct)
  case 1
  show ?case by simp
next
  case (2 c cs)
  have "length (dropWhile py_isspace cs) \<le> length cs"
    by (rule length_dropWhile_le)
  with 2 show ?case by (auto intro: le_trans)
qed

lemma length_strip: "length (strip s) \<le> length s"
proof -
  have "length (strip s) \<le> length (dropWhile py_isspace s)"
    unfolding strip_def by (metis length_rev length_dropWhile_le)
  also have "\<dots> \<le> length s" by (rule length_dropWhile_le)
  finally show ?thesis .
qed

lemma nfkc_ascii: "list_all (\<lambda>c. c < 128) s \<Longrightarrow> nfkc U s = s"
  by (simp add: nfkc_def)

lemma length_clean_text_nfkc: "length (clean_text U s) \<le> length (nfkc U s)"
proof (cases "s = []")
  case True
  then show ?thesis by (simp add: clean_text_def)
next
  case False
  have "length (filter (allowed U) (strip (collapse_ws (nfkc U s))))
          \<le> length (strip (collapse_ws (nfkc U s)))"
    by (rule length_filter_le)
  also have "\<dots> \<le> length (collapse_ws (nfkc U s))" by (rule length_strip)
  also have "\<dots> \<le> length (nfkc U s)" by (rule length_collapse_ws)
  finally show ?thesis using False by (simp add: clean_text_def)
qed

text \<open>
  Claim C3, as amended.  Cleaning never yields more characters than the NFKC-normalised
  input has: \<open>len(clean(x)) <= len(normalize('NFKC', x))\<close>; and for an input of ASCII
  characters, which normalisation leaves unchanged, \<open>len(clean(x)) <= len(x)\<close>.
\<close>

theorem clean_text_length_le_normalised:
  "length (clean_text U x) \<le> length (nfkc U x) \<and>
   (list_all (\<lambda>c. c < 128) x \<longrightarrow> length (clean_text U x) \<le> length x)"
proof (intro conjI impI)
  show "length (clean_text U x) \<le> length (nfkc U x)"
    by (rule length_clean_text_nfkc)
next
  assume "list_all (\<lambda>c. c < 128) x"
  then have "nfkc U x = x" by (rule nfkc_ascii)
  with length_clean_text_nfkc [of U x] show "length (clean_text U x) \<le> length x"
    by simp
qed

theorem clean_text_length_le_normalised_witness:
  "list_all (\<lambda>c. c < 128) (cps ''  Hello   World!  '') \<and>
   length (clean_text ucd_fragment (cps ''  Hello   World!  ''))
     \<le> length (cps ''  Hello   World!  '')"
proof -
  have a: "list_all (\<lambda>c. c < 128) (cps ''  Hello   World!  '')"
    by (simp add: cps_def)
  from clean_text_length_le_normalised [of ucd_fragment "cps ''  Hello   World!  ''"]
  have "list_all (\<lambda>c. c < 128) (cps ''  Hello   World!  '') \<longrightarrow>
        length (clean_text ucd_fragment (cps ''  Hello   World!  ''))
          \<le> length (cps ''  Hello   World!  '')"
    by (rule conjunct2)
  from this a have "length (clean_text ucd_fragment (cps ''  Hello   World!  ''))
          \<le> length (cps ''  Hello   World!  '')"
    by (rule mp)
  with a show ?thesis by (rule conjI)
qed

text \<open>
  Claim C3 as stated fails: the one-character text U+2026 (horizontal ellipsis) is
  normalised to three full stops, all of which are kept.
\<close>

theorem clean_text_lengthens_ellipsis:
  "\<not> length (clean_text ucd_fragment [0x2026]) \<le> length [0x2026 :: codepoint]"
  by (simp add: clean_text_def nfkc_def ucd_fragment_def strip_def allowed_def
      allowed_punct_def py_isspace_def)

subsection \<open>Cleaning a cleaned text\<close>






















section \<open>Properties of get\_text\_stats\<close>

text \<open>
  Claim C10.  In the record returned by \<open>get_text_stats\<close>, \<open>character_count\<close> equals
  \<open>cleaned_length\<close>, both being the length of the cleaned text, and each of \<open>hashtag_count\<close>,
  \<open>mention_count\<close> and \<open>url_count\<close> is the length of the list field of the same record, which
  has no duplicates.
\<close>

theorem get_text_stats_counts:
  "character_count (get_text_stats U text) = cleaned_length (get_text_stats U text) \<and>
   cleaned_length (get_text_stats U text) = length (clean_text U text) \<and>
   hashtag_count (get_text_stats U text) = length (hashtags (get_text_stats U text)) \<and>
   mention_count (get_text_stats U text) = length (mentions (get_text_stats U text)) \<and>
   url_count (get_text_stats U text) = length (urls (get_text_stats U text)) \<and>
   distinct (hashtags (get_text_stats U text)) \<and>
   distinct (mentions (get_text_stats U text)) \<and>
   distinct (urls (get_text_stats U text))"
  by (simp add: get_text_stats_def Let_def extract_hashtags_def extract_mentions_def
      extract_urls_def)

section \<open>Properties of the rounding to a double\<close>

lemma round_half_even_nonneg: "0 \<le> y \<Longrightarrow> 0 \<le> round_half_even y"
  by (simp add: round_half_even_def Let_def)

lemma round_half_even_le_int:
  assumes "y \<le> of_int N"
  shows "round_half_even y \<le> N"
proof -
  from assms have f: "\<lfloor>y\<rfloor> \<le> N" by (simp add: floor_le_iff)
  show ?thesis
  proof (cases "\<lfloor>y\<rfloor> = N")
    case True
    have "of_int \<lfloor>y\<rfloor> \<le> y" by simp
    with True assms have "y = of_int N" by simp
    then show ?thesis by (simp add: round_half_even_def Let_def)
  next
    case False
    with f have "\<lfloor>y\<rfloor> + 1 \<le> N" by simp
    then show ?thesis by (simp add: round_half_even_def Let_def)
  qed
qed

lemma fl_nonneg: "0 \<le> x \<Longrightarrow> 0 \<le> fl x"
  by (simp add: fl_def Let_def round_half_even_nonneg)

lemma binade_le:
  assumes "x \<noteq> 0"
  shows "2 powi binade x \<le> \<bar>x\<bar>"
proof -
  obtain n d where q: "quotient_of \<bar>x\<bar> = (n, d)" by (cases "quotient_of \<bar>x\<bar>")
  then have d: "0 < d" by (rule quotient_of_denom_pos)
  from q have x: "\<bar>x\<bar> = of_int n / of_int d" by (rule quotient_of_div)
  from assms have "0 < \<bar>x\<bar>" by simp
  with x d have n: "0 < n" by (simp add: zero_less_divide_iff)
  let ?k = "bitlen n - bitlen d"
  show ?thesis
  proof (cases "2 powi ?k \<le> \<bar>x\<bar>")
    case True
    then show ?thesis by (simp add: binade_def q Let_def)
  next
    case False
    then have b: "binade x = ?k - 1" by (simp add: binade_def q Let_def)
    from bitlen_bounds [OF n] have "2 ^ nat (bitlen n - 1) \<le> n" by simp
    then have "(of_int (2 ^ nat (bitlen n - 1)) :: rat) \<le> of_int n" by (simp only: of_int_le_iff)
    moreover from n have "1 \<le> bitlen n" by (simp add: bitlen_alt_def)
    ultimately have lo: "(2::rat) powi (bitlen n - 1) \<le> of_int n"
      by (simp add: power_int_def)
    from bitlen_bounds [OF d] have "d < 2 ^ nat (bitlen d)" by simp
    then have "(of_int d :: rat) < of_int (2 ^ nat (bitlen d))" by (simp only: of_int_less_iff)
    moreover have "0 \<le> bitlen d" by (rule bitlen_nonneg)
    ultimately have hi: "of_int d \<le> (2::rat) powi bitlen d"
      by (simp add: power_int_def)
    have "(2::rat) powi (?k - 1) = 2 powi (bitlen n - 1) / 2 powi bitlen d"
      using power_int_diff [of "2::rat" "bitlen n - 1" "bitlen d"] by (simp add: algebra_simps)
    also have "\<dots> \<le> of_int n / 2 powi bitlen d"
      using lo by (intro divide_right_mono) simp_all
    also have "\<dots> \<le> of_int n / of_int d"
      using hi d n by (intro divide_left_mono) simp_all
    finally show ?thesis by (simp add: b x)
  qed
qed

lemma fl_le_one:
  assumes "x \<le> 1"
  shows "fl x \<le> 1"
proof (cases "x \<le> 0")
  case True
  then have "0 \<le> - x" by simp
  have "round_half_even y \<le> 0" if "y \<le> 0" for y
    using round_half_even_le_int [of y 0] that by simp
  then have "round_half_even (x / 2 powi p) \<le> 0" for p
    using True by (simp add: divide_le_0_iff)
  then have "fl x \<le> 0"
    by (auto simp: fl_def Let_def mult_le_0_iff)
  then show ?thesis by simp
next
  case False
  then have pos: "0 < x" and nz: "x \<noteq> 0" by simp_all
  define p where "p = max (binade x - 52) (- 1074)"
  have "2 powi binade x \<le> \<bar>x\<bar>" using nz by (rule binade_le)
  with assms pos have "(2::rat) powi binade x \<le> 2 powi 0" by simp
  then have "binade x \<le> 0" by (rule power_int_le_imp_le_exp [rotated]) simp_all
  then have p0: "p \<le> 0" by (simp add: p_def)
  define N where "N = (2::int) ^ nat (- p)"
  have N: "(of_int N :: rat) = 2 powi (- p)" using p0 by (simp add: N_def power_int_def)
  have "x / 2 powi p = x * 2 powi (- p)" by (simp add: power_int_minus field_simps)
  also have "\<dots> \<le> 1 * 2 powi (- p)" using assms by (intro mult_right_mono) simp_all
  finally have "x / 2 powi p \<le> of_int N" by (simp add: N)
  then have "round_half_even (x / 2 powi p) \<le> N" by (rule round_half_even_le_int)
  then have "(of_int (round_half_even (x / 2 powi p)) :: rat) \<le> of_int N"
    by (simp only: of_int_le_iff)
  then have "of_int (round_half_even (x / 2 powi p)) * 2 powi p \<le> of_int N * (2::rat) powi p"
    by (intro mult_right_mono) simp_all
  also have "\<dots> = 1" by (simp add: N power_int_minus)
  finally show ?thesis using nz by (simp add: fl_def Let_def p_def)
qed

lemma lit_values:
  "lit 0.1 = 3602879701896397 / 2 ^ 55" "lit 0.9 = 8106479329266893 / 2 ^ 53"
  "lit 0.3 = 5404319552844595 / 2 ^ 54" "lit 0.7 = 3152519739159347 / 2 ^ 52"
  unfolding lit_def by code_simp+

lemma nine_tenths: "fsub 1 (lit 0.1) = lit 0.9" "fadd (- lit 0.1) 1 = lit 0.9"
  unfolding lit_def fsub_def fadd_def by code_simp+

lemma lit_signs: "0 < lit 0.1" "lit 0.1 \<le> 1" "0 < lit 0.9"
  by (simp_all add: lit_values)

section \<open>Properties of analyze\_sentiment\<close>

lemma classify_sentiment_label:
  "fst (classify_sentiment s) =
     (if s > lit 0.1 then ''positive'' else if s < - lit 0.1 then ''negative''
      else ''neutral'')"
  by (simp add: classify_sentiment_def Let_def)

lemma classify_sentiment_confidence:
  "snd (classify_sentiment s) =
     (if s > lit 0.1 then min 1 (fdiv (fsub s (lit 0.1)) (lit 0.9))
      else if s < - lit 0.1 then min 1 (fdiv (fsub (- lit 0.1) s) (lit 0.9))
      else fsub 1 \<bar>s\<bar>)"
  by (simp add: classify_sentiment_def Let_def nine_tenths)

lemma combine_sentiment_scores_clamp:
  "combine_sentiment_scores p vs =
     clamp (fadd (fmul (lit 0.3) p) (fmul (lit 0.7) (compound vs))) (- 1) 1"
  by (simp add: combine_sentiment_scores_def clamp_def Let_def max_def min_def)

lemma generate_sentiment_explanation_label:
  "\<exists>e. generate_sentiment_explanation (fst (classify_sentiment s)) s' j = Inr e"
  by (simp add: classify_sentiment_label generate_sentiment_explanation_def explanations_def
      Let_def)

lemma analyze_sentiment_success:
  assumes "run_textblob L text = Inr blob" and "run_vader L text = Inr vs"
  shows "\<exists>e. analyze_sentiment L text =
     Inr \<lparr>sentiment = fst (classify_sentiment (combine_sentiment_scores (polarity blob) vs)),
          confidence = snd (classify_sentiment (combine_sentiment_scores (polarity blob) vs)),
          score = combine_sentiment_scores (polarity blob) vs,
          explanation = e,
          details = \<lparr>textblob = \<lparr>polarity = polarity blob, subjectivity = subjectivity blob\<rparr>,
                     vader = vs,
                     combined = combine_sentiment_scores (polarity blob) vs\<rparr>\<rparr>"
proof -
  let ?s = "combine_sentiment_scores (polarity blob) vs"
  obtain c conf where cls: "classify_sentiment ?s = (c, conf)"
    by (cases "classify_sentiment ?s")
  from generate_sentiment_explanation_label [of ?s ?s "subjectivity blob"]
  obtain e where "generate_sentiment_explanation c ?s (subjectivity blob) = Inr e"
    by (auto simp: cls)
  with assms cls have "analyze_sentiment L text =
     Inr \<lparr>sentiment = fst (classify_sentiment ?s),
          confidence = snd (classify_sentiment ?s),
          score = ?s,
          explanation = e,
          details = \<lparr>textblob = \<lparr>polarity = polarity blob, subjectivity = subjectivity blob\<rparr>,
                     vader = vs,
                     combined = ?s\<rparr>\<rparr>"
    by (simp add: analyze_sentiment_def analyze_try_def Let_def)
  then show ?thesis by blast
qed

lemma analyze_sentiment_failure:
  assumes "(\<exists>e. run_textblob L text = Inl e) \<or> (\<exists>e. run_vader L text = Inl e)"
  shows "analyze_sentiment L text = Inr get_fallback_sentiment"
  using assms
  by (auto simp: analyze_sentiment_def analyze_try_def Let_def split: sum.splits prod.splits)

lemma classify_confidence_bounds:
  assumes "- 1 \<le> s" and "s \<le> 1"
  shows "0 \<le> snd (classify_sentiment s) \<and> snd (classify_sentiment s) \<le> 1"
proof -
  consider (pos) "s > lit 0.1" | (neg) "\<not> s > lit 0.1" "s < - lit 0.1"
    | (neu) "\<not> s > lit 0.1" "\<not> s < - lit 0.1"
    by blast
  then show ?thesis
  proof cases
    case pos
    then have "0 \<le> fl (s - lit 0.1)" by (intro fl_nonneg) simp
    then have "0 \<le> fl (s - lit 0.1) / lit 0.9" using lit_signs(3) by simp
    then have "0 \<le> fdiv (fsub s (lit 0.1)) (lit 0.9)"
      unfolding fdiv_def fsub_def by (rule fl_nonneg)
    with pos show ?thesis by (simp add: classify_sentiment_confidence)
  next
    case neg
    then have "0 \<le> fl (- lit 0.1 - s)" by (intro fl_nonneg) simp
    then have "0 \<le> fl (- lit 0.1 - s) / lit 0.9" using lit_signs(3) by simp
    then have "0 \<le> fdiv (fsub (- lit 0.1) s) (lit 0.9)"
      unfolding fdiv_def fsub_def by (rule fl_nonneg)
    with neg show ?thesis by (simp add: classify_sentiment_confidence)
  next
    case neu
    then have "\<bar>s\<bar> \<le> lit 0.1" by (simp add: abs_le_iff)
    with lit_signs(2) have "0 \<le> 1 - \<bar>s\<bar>" by linarith
    then have lo: "0 \<le> fsub 1 \<bar>s\<bar>" unfolding fsub_def by (rule fl_nonneg)
    have "1 - \<bar>s\<bar> \<le> 1" by simp
    then have hi: "fsub 1 \<bar>s\<bar> \<le> 1" unfolding fsub_def by (rule fl_le_one)
    from neu lo hi show ?thesis by (simp add: classify_sentiment_confidence)
  qed
qed

lemma combine_bounds:
  "- 1 \<le> combine_sentiment_scores p vs \<and> combine_sentiment_scores p vs \<le> 1"
  by (simp add: combine_sentiment_scores_def Let_def)

lemma analyze_sentiment_cases:
  "(\<exists>blob vs. run_textblob L text = Inr blob \<and> run_vader L text = Inr vs) \<or>
   ((\<exists>e. run_textblob L text = Inl e) \<or> (\<exists>e. run_vader L text = Inl e))"
  by (cases "run_textblob L text"; cases "run_vader L text") auto

text \<open>
  Claim C1.  When both libraries answer, the score of the record is
  \<open>clamp(0.3 * polarity + 0.7 * compound, -1, 1)\<close>, computed in double-precision
  arithmetic as the source computes it, and the classification is \<open>positive\<close> for a score
  above the double \<open>0.1\<close>, \<open>negative\<close> for a score below \<open>-0.1\<close> and \<open>neutral\<close> otherwise.
\<close>

theorem analyze_sentiment_score_and_class:
  assumes "run_textblob L text = Inr blob" and "run_vader L text = Inr vs"
  shows "\<exists>r. analyze_sentiment L text = Inr r \<and>
           score r =
             clamp (fadd (fmul (lit 0.3) (polarity blob)) (fmul (lit 0.7) (compound vs)))
               (- 1) 1 \<and>
           sentiment r =
             (if score r > lit 0.1 then ''positive''
              else if score r < - lit 0.1 then ''negative''
              else ''neutral'')"
proof -
  from analyze_sentiment_success [OF assms] obtain e where
    "analyze_sentiment L text =
       Inr \<lparr>sentiment = fst (classify_sentiment (combine_sentiment_scores (polarity blob) vs)),
            confidence = snd (classify_sentiment (combine_sentiment_scores (polarity blob) vs)),
            score = combine_sentiment_scores (polarity blob) vs,
            explanation = e,
            details = \<lparr>textblob = \<lparr>polarity = polarity blob, subjectivity = subjectivity blob\<rparr>,
                       vader = vs,
                       combined = combine_sentiment_scores (polarity blob) vs\<rparr>\<rparr>"
    by blast
  then show ?thesis
    by (simp add: classify_sentiment_label combine_sentiment_scores_clamp)
qed

theorem analyze_sentiment_score_and_class_witness:
  "run_textblob libs_ok (cps ''I love this'') = Inr \<lparr>polarity = 0.5, subjectivity = 0.75\<rparr> \<and>
   run_vader libs_ok (cps ''I love this'') = Inr \<lparr>neg = 0.0, neu = 0.25, pos = 0.75, compound = 0.75\<rparr> \<and>
   (\<exists>r. analyze_sentiment libs_ok (cps ''I love this'') = Inr r \<and>
        score r =
          clamp (fadd (fmul (lit 0.3) (polarity \<lparr>polarity = 0.5, subjectivity = 0.75\<rparr>)) (fmul (lit 0.7) (compound \<lparr>neg = 0.0, neu = 0.25, pos = 0.75, compound = 0.75\<rparr>)))
            (- 1) 1 \<and>
        sentiment r =
          (if score r > lit 0.1 then ''positive''
           else if score r < - lit 0.1 then ''negative''
           else ''neutral''))"
proof -
  have a: "run_textblob libs_ok (cps ''I love this'') = Inr \<lparr>polarity = 0.5, subjectivity = 0.75\<rparr>"
    by (simp add: libs_ok_def)
  have b: "run_vader libs_ok (cps ''I love this'') = Inr \<lparr>neg = 0.0, neu = 0.25, pos = 0.75, compound = 0.75\<rparr>"
    by (simp add: libs_ok_def)
  show ?thesis
    by (rule conjI [OF a conjI [OF b analyze_sentiment_score_and_class [OF a b]]])
qed

text \<open>
  Two runs at the threshold, where the rounding of the products decides.  With polarity
  \<open>-0.95\<close> and compound \<open>0.55\<close> the score is the double \<open>0.10000000000000003\<close>, above the
  threshold: the post is positive, with a confidence of about \<open>3.08e-17\<close>.  With polarity
  \<open>-0.6\<close> and compound \<open>0.4\<close> the score is \<open>0.09999999999999998\<close>: the post is neutral.
\<close>

lemma analyze_sentiment_above_threshold:
  "\<exists>e. analyze_sentiment libs_above_threshold t =
     Inr \<lparr>sentiment = ''positive'',
          confidence = 2501999792983609 / 2 ^ 106,
          score = 1801439850948199 / 2 ^ 54,
          explanation = e,
          details = \<lparr>textblob = \<lparr>polarity = lit (- 0.95), subjectivity = 0.5\<rparr>,
                     vader = \<lparr>neg = 0.0, neu = 0.5, pos = 0.5, compound = lit 0.55\<rparr>,
                     combined = 1801439850948199 / 2 ^ 54\<rparr>\<rparr>"
proof -
  define p :: rat where "p = lit (- 0.95)"
  define vs where "vs = \<lparr>neg = 0.0, neu = 0.5, pos = 0.5, compound = lit 0.55\<rparr>"
  define x :: rat where "x = 1801439850948199 / 2 ^ 54"
  have s: "combine_sentiment_scores p vs = x"
    unfolding p_def vs_def x_def combine_sentiment_scores_def lit_def fadd_def fmul_def
    by code_simp
  have c: "classify_sentiment x = (''positive'', 2501999792983609 / 2 ^ 106)"
    unfolding x_def classify_sentiment_def lit_def fadd_def fsub_def fdiv_def
    by code_simp
  have a: "run_textblob libs_above_threshold t = Inr \<lparr>polarity = p, subjectivity = 0.5\<rparr>"
    and b: "run_vader libs_above_threshold t = Inr vs"
    by (simp_all add: libs_above_threshold_def p_def vs_def)
  from analyze_sentiment_success [OF a b]
  have "\<exists>e. analyze_sentiment libs_above_threshold t =
     Inr \<lparr>sentiment = ''positive'',
          confidence = 2501999792983609 / 2 ^ 106,
          score = x,
          explanation = e,
          details = \<lparr>textblob = \<lparr>polarity = p, subjectivity = 0.5\<rparr>,
                     vader = vs,
                     combined = x\<rparr>\<rparr>"
    by (simp add: s c)
  then show ?thesis by (simp add: p_def vs_def x_def)
qed

lemma analyze_sentiment_below_threshold:
  "\<exists>e. analyze_sentiment libs_below_threshold t =
     Inr \<lparr>sentiment = ''neutral'',
          confidence = lit 0.9,
          score = 900719925474099 / 2 ^ 53,
          explanation = e,
          details = \<lparr>textblob = \<lparr>polarity = lit (- 0.6), subjectivity = 0.5\<rparr>,
                     vader = \<lparr>neg = 0.0, neu = 0.5, pos = 0.5, compound = lit 0.4\<rparr>,
                     combined = 900719925474099 / 2 ^ 53\<rparr>\<rparr>"
proof -
  define p :: rat where "p = lit (- 0.6)"
  define vs where "vs = \<lparr>neg = 0.0, neu = 0.5, pos = 0.5, compound = lit 0.4\<rparr>"
  define x :: rat where "x = 900719925474099 / 2 ^ 53"
  have s: "combine_sentiment_scores p vs = x"
    unfolding p_def vs_def x_def combine_sentiment_scores_def lit_def fadd_def fmul_def
    by code_simp
  have c: "classify_sentiment x = (''neutral'', lit 0.9)"
    unfolding x_def classify_sentiment_def lit_def fadd_def fsub_def fdiv_def
    by code_simp
  have a: "run_textblob libs_below_threshold t = Inr \<lparr>polarity = p, subjectivity = 0.5\<rparr>"
    and b: "run_vader libs_below_threshold t = Inr vs"
    by (simp_all add: libs_below_threshold_def p_def vs_def)
  from analyze_sentiment_success [OF a b]
  have "\<exists>e. analyze_sentiment libs_below_threshold t =
     Inr \<lparr>sentiment = ''neutral'',
          confidence = lit 0.9,
          score = x,
          explanation = e,
          details = \<lparr>textblob = \<lparr>polarity = p, subjectivity = 0.5\<rparr>,
                     vader = vs,
                     combined = x\<rparr>\<rparr>"
    by (simp add: s c)
  then show ?thesis by (simp add: p_def vs_def x_def)
qed

text \<open>
  Claim C4, as amended.  When TextBlob or VADER raises an exception, \<open>analyze_sentiment\<close>
  does not raise: it returns the fixed fallback record, with sentiment \<open>neutral\<close>, confidence
  \<open>0.5\<close>, score \<open>0.0\<close>, the explanation that the text could not be processed, and neutral
  detail signals: polarity, compound, positive share, negative share and combined score
  are \<open>0.0\<close>, subjectivity is \<open>0.5\<close> and the neutral share is \<open>1.0\<close>.
\<close>

theorem analyze_sentiment_fallback:
  assumes "(\<exists>e. run_textblob L text = Inl e) \<or> (\<exists>e. run_vader L text = Inl e)"
  shows "\<exists>r. analyze_sentiment L text = Inr r \<and> r = get_fallback_sentiment \<and>
           sentiment r = ''neutral'' \<and> confidence r = 0.5 \<and> score r = 0 \<and>
           explanation r = ''Sentiment analysis was unable to process this text.'' \<and>
           polarity (textblob (details r)) = 0 \<and> subjectivity (textblob (details r)) = 0.5 \<and>
           compound (vader (details r)) = 0 \<and> pos (vader (details r)) = 0 \<and>
           neg (vader (details r)) = 0 \<and> neu (vader (details r)) = 1 \<and>
           combined (details r) = 0"
  by (simp add: analyze_sentiment_failure [OF assms] get_fallback_sentiment_def)

theorem analyze_sentiment_fallback_witness:
  "((\<exists>e. run_textblob libs_failing (cps ''test'') = Inl e) \<or>
    (\<exists>e. run_vader libs_failing (cps ''test'') = Inl e)) \<and>
   (\<exists>r. analyze_sentiment libs_failing (cps ''test'') = Inr r \<and> r = get_fallback_sentiment \<and>
           sentiment r = ''neutral'' \<and> confidence r = 0.5 \<and> score r = 0 \<and>
           explanation r = ''Sentiment analysis was unable to process this text.'' \<and>
           polarity (textblob (details r)) = 0 \<and> subjectivity (textblob (details r)) = 0.5 \<and>
           compound (vader (details r)) = 0 \<and> pos (vader (details r)) = 0 \<and>
           neg (vader (details r)) = 0 \<and> neu (vader (details r)) = 1 \<and>
           combined (details r) = 0)"
proof -
  have a: "(\<exists>e. run_textblob libs_failing (cps ''test'') = Inl e) \<or>
    (\<exists>e. run_vader libs_failing (cps ''test'') = Inl e)"
    by (simp add: libs_failing_def)
  show ?thesis
    by (rule conjI [OF a analyze_sentiment_fallback [OF a]])
qed

text \<open>
  Claim C4 as stated fails in one detail: the detail signals of the fallback record are
  not all zero-valued.
\<close>

theorem analyze_sentiment_fallback_details_not_zero:
  "analyze_sentiment libs_failing (cps ''test'') = Inr get_fallback_sentiment \<and>
   subjectivity (textblob (details get_fallback_sentiment)) = 0.5 \<and>
   neu (vader (details get_fallback_sentiment)) = 1 \<and>
   subjectivity (textblob (details get_fallback_sentiment)) \<noteq> 0 \<and>
   neu (vader (details get_fallback_sentiment)) \<noteq> 0"
  by (simp add: analyze_sentiment_def analyze_try_def libs_failing_def
      get_fallback_sentiment_def)

text \<open>
  Claim C5.  When both libraries answer, the confidence is \<open>min(1, (score - 0.1) / 0.9)\<close>
  for a positive, \<open>min(1, (-0.1 - score) / 0.9)\<close> for a negative and \<open>1 - abs(score)\<close> for a
  neutral classification, each computed in double-precision arithmetic as the source
  computes it (its divisors \<open>1.0 - 0.1\<close> and \<open>-0.1 + 1.0\<close> are the double \<open>0.9\<close>); and every
  call returns a record whose score lies in \<open>[-1, 1]\<close> and whose confidence lies in
  \<open>[0, 1]\<close>.
\<close>

theorem analyze_sentiment_confidence_and_ranges:
  "(\<forall>blob vs. run_textblob L text = Inr blob \<longrightarrow> run_vader L text = Inr vs \<longrightarrow>
      (\<exists>r. analyze_sentiment L text = Inr r \<and>
           confidence r =
             (if sentiment r = ''positive''
              then min 1 (fdiv (fsub (score r) (lit 0.1)) (lit 0.9))
              else if sentiment r = ''negative''
              then min 1 (fdiv (fsub (- lit 0.1) (score r)) (lit 0.9))
              else fsub 1 \<bar>score r\<bar>))) \<and>
   (\<exists>r. analyze_sentiment L text = Inr r \<and>
        - 1 \<le> score r \<and> score r \<le> 1 \<and> 0 \<le> confidence r \<and> confidence r \<le> 1)"
proof (intro conjI allI impI)
  fix blob vs
  assume a: "run_textblob L text = Inr blob" and b: "run_vader L text = Inr vs"
  show "\<exists>r. analyze_sentiment L text = Inr r \<and>
           confidence r =
             (if sentiment r = ''positive''
              then min 1 (fdiv (fsub (score r) (lit 0.1)) (lit 0.9))
              else if sentiment r = ''negative''
              then min 1 (fdiv (fsub (- lit 0.1) (score r)) (lit 0.9))
              else fsub 1 \<bar>score r\<bar>)"
  proof -
    let ?s = "combine_sentiment_scores (polarity blob) vs"
    from analyze_sentiment_success [OF a b] obtain r where
      r: "analyze_sentiment L text = Inr r" and
      "sentiment r = fst (classify_sentiment ?s)" and
      "confidence r = snd (classify_sentiment ?s)" and "score r = ?s"
      by fastforce
    then have "confidence r =
             (if sentiment r = ''positive''
              then min 1 (fdiv (fsub (score r) (lit 0.1)) (lit 0.9))
              else if sentiment r = ''negative''
              then min 1 (fdiv (fsub (- lit 0.1) (score r)) (lit 0.9))
              else fsub 1 \<bar>score r\<bar>)"
      by (simp add: classify_sentiment_label classify_sentiment_confidence)
    with r show ?thesis by blast
  qed
next
  from analyze_sentiment_cases [of L "text"]
  show "\<exists>r. analyze_sentiment L text = Inr r \<and>
        - 1 \<le> score r \<and> score r \<le> 1 \<and> 0 \<le> confidence r \<and> confidence r \<le> 1"
  proof
    assume "\<exists>blob vs. run_textblob L text = Inr blob \<and> run_vader L text = Inr vs"
    then obtain blob vs where a: "run_textblob L text = Inr blob"
      and b: "run_vader L text = Inr vs" by blast
    let ?s = "combine_sentiment_scores (polarity blob) vs"
    have s: "- 1 \<le> ?s \<and> ?s \<le> 1" by (rule combine_bounds)
    then have "0 \<le> snd (classify_sentiment ?s) \<and> snd (classify_sentiment ?s) \<le> 1"
      by (intro classify_confidence_bounds) simp_all
    moreover from analyze_sentiment_success [OF a b] obtain r where
      "analyze_sentiment L text = Inr r" and
      "confidence r = snd (classify_sentiment ?s)" and "score r = ?s"
      by fastforce
    ultimately show ?thesis using s by auto
  next
    assume "(\<exists>e. run_textblob L text = Inl e) \<or> (\<exists>e. run_vader L text = Inl e)"
    then have "analyze_sentiment L text = Inr get_fallback_sentiment"
      by (rule analyze_sentiment_failure)
    then show ?thesis by (simp add: get_fallback_sentiment_def)
  qed
qed

theorem analyze_sentiment_confidence_and_ranges_witness:
  "run_textblob libs_ok (cps ''fine'') = Inr \<lparr>polarity = 0.5, subjectivity = 0.75\<rparr> \<and>
   run_vader libs_ok (cps ''fine'') = Inr \<lparr>neg = 0.0, neu = 0.25, pos = 0.75, compound = 0.75\<rparr> \<and>
   (\<exists>r. analyze_sentiment libs_ok (cps ''fine'') = Inr r \<and>
        confidence r =
             (if sentiment r = ''positive''
              then min 1 (fdiv (fsub (score r) (lit 0.1)) (lit 0.9))
              else if sentiment r = ''negative''
              then min 1 (fdiv (fsub (- lit 0.1) (score r)) (lit 0.9))
              else fsub 1 \<bar>score r\<bar>))"
proof -
  have a: "run_textblob libs_ok (cps ''fine'') = Inr \<lparr>polarity = 0.5, subjectivity = 0.75\<rparr>"
    by (simp add: libs_ok_def)
  have b: "run_vader libs_ok (cps ''fine'') = Inr \<lparr>neg = 0.0, neu = 0.25, pos = 0.75, compound = 0.75\<rparr>"
    by (simp add: libs_ok_def)
  from analyze_sentiment_confidence_and_ranges [of libs_ok "cps ''fine''"]
  have "\<forall>blob vs. run_textblob libs_ok (cps ''fine'') = Inr blob \<longrightarrow>
          run_vader libs_ok (cps ''fine'') = Inr vs \<longrightarrow>
      (\<exists>r. analyze_sentiment libs_ok (cps ''fine'') = Inr r \<and>
           confidence r =
             (if sentiment r = ''positive''
              then min 1 (fdiv (fsub (score r) (lit 0.1)) (lit 0.9))
              else if sentiment r = ''negative''
              then min 1 (fdiv (fsub (- lit 0.1) (score r)) (lit 0.9))
              else fsub 1 \<bar>score r\<bar>))"
    by (rule conjunct1)
  then have "\<exists>r. analyze_sentiment libs_ok (cps ''fine'') = Inr r \<and>
           confidence r =
             (if sentiment r = ''positive''
              then min 1 (fdiv (fsub (score r) (lit 0.1)) (lit 0.9))
              else if sentiment r = ''negative''
              then min 1 (fdiv (fsub (- lit 0.1) (score r)) (lit 0.9))
              else fsub 1 \<bar>score r\<bar>)"
    using a b by blast
  with a b show ?thesis by blast
qed

section \<open>Properties of validate\_post\<close>

lemmas err_defs =
  err_empty_def err_too_long_def err_too_short_def err_repetition_def err_spam_def

lemma err_messages_distinct:
  "err_too_long m \<noteq> err_too_short" "err_too_long m \<noteq> err_repetition"
  "err_too_long m \<noteq> err_spam" "err_too_long m \<noteq> err_empty"
  "err_too_short \<noteq> err_repetition" "err_too_short \<noteq> err_spam" "err_too_short \<noteq> err_empty"
  "err_repetition \<noteq> err_spam" "err_repetition \<noteq> err_empty" "err_spam \<noteq> err_empty"
  by (simp_all add: err_defs)

text \<open>
  Claim C8.  For an empty or whitespace-only text \<open>validate_post\<close> returns \<open>False\<close> with the
  single error \<open>Post cannot be empty\<close> and no other rule contributes.  For every other text
  the error list holds, in the order of the checks, the error of each rule that applies
  and nothing else.  In both cases the flag is true exactly when the list is empty.
\<close>

theorem validate_post_empty_short_circuit_and_collection:
  "((t = [] \<or> strip t = []) \<longrightarrow> validate_post U m t = (False, [err_empty])) \<and>
   (\<not> (t = [] \<or> strip t = []) \<longrightarrow>
      snd (validate_post U m t) =
        (if int (length t) > m then [err_too_long m] else []) @
        (if length (strip t) < 3 then [err_too_short] else []) @
        (if has_excessive_repetition t then [err_repetition] else []) @
        (if is_spam_like U t then [err_spam] else []) \<and>
      (err_too_long m \<in> set (snd (validate_post U m t)) \<longleftrightarrow> int (length t) > m) \<and>
      (err_too_short \<in> set (snd (validate_post U m t)) \<longleftrightarrow> length (strip t) < 3) \<and>
      (err_repetition \<in> set (snd (validate_post U m t)) \<longleftrightarrow>
         has_excessive_repetition t) \<and>
      (err_spam \<in> set (snd (validate_post U m t)) \<longleftrightarrow> is_spam_like U t) \<and>
      err_empty \<notin> set (snd (validate_post U m t))) \<and>
   (fst (validate_post U m t) \<longleftrightarrow> snd (validate_post U m t) = [])"
  by (simp add: validate_post_def Let_def err_messages_distinct
      err_messages_distinct [symmetric])

theorem validate_post_empty_short_circuit_and_collection_witness:
  "(([] :: pystr) = [] \<or> strip ([] :: pystr) = []) \<and>
   validate_post ucd_fragment 280 ([] :: pystr) = (False, [err_empty]) \<and>
   \<not> ((cps ''HEY!!!! spam spam spam'') = [] \<or> strip (cps ''HEY!!!! spam spam spam'') = []) \<and>
   (snd (validate_post ucd_fragment 2 (cps ''HEY!!!! spam spam spam'')) =
        (if int (length (cps ''HEY!!!! spam spam spam'')) > 2 then [err_too_long 2] else []) @
        (if length (strip (cps ''HEY!!!! spam spam spam'')) < 3 then [err_too_short] else []) @
        (if has_excessive_repetition (cps ''HEY!!!! spam spam spam'') then [err_repetition] else []) @
        (if is_spam_like ucd_fragment (cps ''HEY!!!! spam spam spam'') then [err_spam] else []) \<and>
      (err_too_long 2 \<in> set (snd (validate_post ucd_fragment 2 (cps ''HEY!!!! spam spam spam''))) \<longleftrightarrow> int (length (cps ''HEY!!!! spam spam spam'')) > 2) \<and>
      (err_too_short \<in> set (snd (validate_post ucd_fragment 2 (cps ''HEY!!!! spam spam spam''))) \<longleftrightarrow> length (strip (cps ''HEY!!!! spam spam spam'')) < 3) \<and>
      (err_repetition \<in> set (snd (validate_post ucd_fragment 2 (cps ''HEY!!!! spam spam spam''))) \<longleftrightarrow>
         has_excessive_repetition (cps ''HEY!!!! spam spam spam'')) \<and>
      (err_spam \<in> set (snd (validate_post ucd_fragment 2 (cps ''HEY!!!! spam spam spam''))) \<longleftrightarrow> is_spam_like ucd_fragment (cps ''HEY!!!! spam spam spam'')) \<and>
      err_empty \<notin> set (snd (validate_post ucd_fragment 2 (cps ''HEY!!!! spam spam spam'')))) \<and>
   snd (validate_post ucd_fragment 2 (cps ''HEY!!!! spam spam spam''))
     = [err_too_long 2, err_repetition, err_spam]"
proof -
  have a: "([] :: pystr) = [] \<or> strip ([] :: pystr) = []" by simp
  have b: "\<not> ((cps ''HEY!!!! spam spam spam'') = [] \<or> strip (cps ''HEY!!!! spam spam spam'') = [])"
    by (simp add: cps_def strip_def py_isspace_def)
  note at_empty = validate_post_empty_short_circuit_and_collection
    [of "([] :: pystr)" ucd_fragment 280]
  note at_post = validate_post_empty_short_circuit_and_collection
    [of "(cps ''HEY!!!! spam spam spam'')" ucd_fragment 2]
  have c: "validate_post ucd_fragment 280 ([] :: pystr) = (False, [err_empty])"
    by (rule mp [OF conjunct1 [OF at_empty] a])
  have d: "snd (validate_post ucd_fragment 2 (cps ''HEY!!!! spam spam spam'')) =
        (if int (length (cps ''HEY!!!! spam spam spam'')) > 2 then [err_too_long 2] else []) @
        (if length (strip (cps ''HEY!!!! spam spam spam'')) < 3 then [err_too_short] else []) @
        (if has_excessive_repetition (cps ''HEY!!!! spam spam spam'') then [err_repetition] else []) @
        (if is_spam_like ucd_fragment (cps ''HEY!!!! spam spam spam'') then [err_spam] else []) \<and>
      (err_too_long 2 \<in> set (snd (validate_post ucd_fragment 2 (cps ''HEY!!!! spam spam spam''))) \<longleftrightarrow> int (length (cps ''HEY!!!! spam spam spam'')) > 2) \<and>
      (err_too_short \<in> set (snd (validate_post ucd_fragment 2 (cps ''HEY!!!! spam spam spam''))) \<longleftrightarrow> length (strip (cps ''HEY!!!! spam spam spam'')) < 3) \<and>
      (err_repetition \<in> set (snd (validate_post ucd_fragment 2 (cps ''HEY!!!! spam spam spam''))) \<longleftrightarrow>
         has_excessive_repetition (cps ''HEY!!!! spam spam spam'')) \<and>
      (err_spam \<in> set (snd (validate_post ucd_fragment 2 (cps ''HEY!!!! spam spam spam''))) \<longleftrightarrow> is_spam_like ucd_fragment (cps ''HEY!!!! spam spam spam'')) \<and>
      err_empty \<notin> set (snd (validate_post ucd_fragment 2 (cps ''HEY!!!! spam spam spam'')))"
    by (rule mp [OF conjunct1 [OF conjunct2 [OF at_post]] b])
  have len: "int (length (cps ''HEY!!!! spam spam spam'')) > 2" "\<not> length (strip (cps ''HEY!!!! spam spam spam'')) < 3"
    by (simp_all add: cps_def strip_def py_isspace_def)
  have rep: "has_excessive_repetition (cps ''HEY!!!! spam spam spam'')"
    by (simp add: cps_def has_excessive_repetition_def)
  have cnt: "length (cps ''HEY!!!! spam spam spam'') = 22"
    "length (upper_matches (cps ''HEY!!!! spam spam spam'')) = 3"
    "length (punct_matches (cps ''HEY!!!! spam spam spam'')) = 4"
    by (simp_all add: cps_def upper_matches_def punct_matches_def ascii_upper_def)
  have "int_gt_float 4 (float_mul (float_of_len 22) float_0_1)" by code_simp
  moreover have "\<not> int_gt_float 3 (float_mul (float_of_len 22) float_0_7)" by code_simp
  ultimately have spam: "is_spam_like ucd_fragment (cps ''HEY!!!! spam spam spam'')"
    by (simp add: is_spam_like_def cnt)
  have e: "snd (validate_post ucd_fragment 2 (cps ''HEY!!!! spam spam spam''))
     = [err_too_long 2, err_repetition, err_spam]"
    using conjunct1 [OF d] len rep spam by simp
  show ?thesis
    by (rule conjI [OF a conjI [OF c conjI [OF b conjI [OF d e]]]])
qed

section \<open>Properties of the double-precision products\<close>

lemma round53_exact: "bitlen \<bar>m\<bar> \<le> 53 \<Longrightarrow> round53 (m, e) = (m, e)"
  by (simp add: round53_def)

lemma round53_pos:
  assumes a: "0 < a" and big: "53 < bitlen a"
  shows "\<exists>q'. round53 (a, e) = (q', e + int (nat (bitlen a - 53))) \<and>
              a div 2 ^ nat (bitlen a - 53) \<le> q' \<and>
              2 * (q' * 2 ^ nat (bitlen a - 53)) \<le> 2 * a + 2 ^ nat (bitlen a - 53)"
proof -
  define s where "s = nat (bitlen a - 53)"
  define E where "E = (2::int) ^ s"
  define q where "q = a div E"
  define r where "r = a mod E"
  define up where "up \<longleftrightarrow> 2 * r > E \<or> (2 * r = E \<and> odd q)"
  define q' where "q' = (if up then q + 1 else q)"
  have E: "0 < E" by (simp add: E_def)
  have split: "a = q * E + r" unfolding q_def r_def by (rule div_mult_mod_eq [symmetric])
  have r: "0 \<le> r" using E by (simp add: r_def)
  from a big have eq: "round53 (a, e) = (q', e + int s)"
    by (simp add: round53_def Let_def q'_def up_def q_def r_def E_def s_def)
  have le: "q \<le> q'" by (simp add: q'_def)
  have qE: "2 * a = 2 * (q * E) + 2 * r" using split by simp
  have bound: "2 * (q' * E) \<le> 2 * a + E"
  proof (cases up)
    case True
    then have "E \<le> 2 * r" by (auto simp: up_def)
    moreover have "2 * (q' * E) = 2 * (q * E) + 2 * E"
      using True by (simp add: q'_def algebra_simps)
    ultimately show ?thesis using qE by linarith
  next
    case False
    then have "2 * (q' * E) = 2 * (q * E)" by (simp add: q'_def)
    with qE r E show ?thesis by linarith
  qed
  from eq le bound show ?thesis unfolding s_def E_def q_def by blast
qed

lemma int_le_div_pos:
  assumes "x * d \<le> (a::int)" and "0 < d"
  shows "x \<le> a div d"
proof -
  have "x = (x * d) div d" using assms(2) by simp
  also have "\<dots> \<le> a div d" by (rule zdiv_mono1) (use assms in simp_all)
  finally show ?thesis .
qed

text \<open>
  The comparison of an integer \<open>L\<close> with the rounded product of an integer \<open>M\<close> and a
  literal.  The literal is \<open>C / 2 ^ p\<close>, close to the fraction \<open>j / k\<close>: \<open>k * C\<close> and
  \<open>j * 2 ^ p\<close> differ by \<open>d\<close>.  Off the boundary \<open>k * L = j * M\<close> rounding cannot change the
  outcome; on the boundary the outcome is fixed when the literal is not below the fraction.
\<close>

lemma gt_mul_literal:
  fixes M L C k j d :: int and p :: nat
  assumes M: "0 < M" and Mlt: "M < 2 ^ 48"
    and C: "0 < C" "C < 2 ^ 53" and p: "53 \<le> p"
    and k: "0 < k" "k \<le> 10"
    and lit: "k * C = j * 2 ^ p + d" and d: "\<bar>d\<bar> \<le> 4"
  shows "j * M < k * L \<Longrightarrow> int_gt_float L (float_mul (M, 0) (C, - int p))"
    and "k * L < j * M \<Longrightarrow> \<not> int_gt_float L (float_mul (M, 0) (C, - int p))"
    and "0 \<le> d \<Longrightarrow> k * L \<le> j * M \<Longrightarrow> \<not> int_gt_float L (float_mul (M, 0) (C, - int p))"
proof -
  define P where "P = (2::int) ^ p"
  define Q where "Q = (2::int) ^ 50"
  define a where "a = M * C"
  have P: "0 < P" by (simp add: P_def)
  have "(2::int) ^ 53 \<le> 2 ^ p" using p by (intro power_increasing) simp_all
  then have P53: "8 * Q \<le> P" by (simp add: P_def Q_def)
  have ka: "k * a = j * (M * P) + d * M"
  proof -
    have "k * a = (k * C) * M" by (simp add: a_def algebra_simps)
    also have "\<dots> = (j * P + d) * M" by (simp add: lit P_def)
    finally show ?thesis by (simp add: algebra_simps)
  qed
  have apos: "0 < a" using M C by (simp add: a_def)
  have dM: "\<bar>d * M\<bar> \<le> 4 * M"
  proof -
    have "\<bar>d * M\<bar> = \<bar>d\<bar> * M" using M by (simp add: abs_mult)
    also have "\<dots> \<le> 4 * M" using d M by (intro mult_right_mono) simp_all
    finally show ?thesis .
  qed
  have M4: "4 * M < Q" using Mlt by (simp add: Q_def)
  have Qpos: "0 < Q" by (simp add: Q_def)
  have mul: "float_mul (M, 0) (C, - int p) = round53 (a, - int p)"
    by (simp add: float_mul_def a_def)
  have alt: "a < 2 ^ 48 * 2 ^ 53"
    unfolding a_def using M Mlt C by (intro mult_strict_mono) simp_all
  \<comment> \<open>the rounded product as \<open>q' * E\<close> over \<open>P\<close>, with \<open>D * E = P\<close>\<close>
  have shape: "\<exists>q' E D. 0 < E \<and> D * E = P \<and> 4 * E \<le> Q \<and>
      a div E \<le> q' \<and> 2 * (q' * E) \<le> 2 * a + E \<and>
      (\<forall>L. int_gt_float L (round53 (a, - int p)) \<longleftrightarrow> q' < L * D)"
  proof (cases "bitlen a \<le> 53")
    case True
    with apos have "round53 (a, - int p) = (a, - int p)" by (simp add: round53_exact)
    then have "\<forall>L. int_gt_float L (round53 (a, - int p)) \<longleftrightarrow> a < L * P"
      using p by (simp add: int_gt_float_def P_def)
    then show ?thesis
      by (intro exI [of _ a] exI [of _ 1] exI [of _ P]) (simp add: Q_def)
  next
    case False
    then have big: "53 < bitlen a" by simp
    define s where "s = nat (bitlen a - 53)"
    define E where "E = (2::int) ^ s"
    define D where "D = (2::int) ^ (p - s)"
    from round53_pos [OF apos big, of "- int p"] obtain q' where
      eq: "round53 (a, - int p) = (q', - int p + int s)" and
      lo: "a div E \<le> q'" and
      hi: "2 * (q' * E) \<le> 2 * a + E"
      unfolding s_def E_def by blast
    from alt have "a < 2 ^ nat 101" by simp
    then have "bitlen a \<le> 101" by (simp only: bitlen_le_iff_power) simp
    then have s50: "s \<le> 48" by (simp add: s_def)
    from s50 p have DE: "D * E = P" by (simp add: D_def E_def P_def flip: power_add)
    have "E \<le> 2 ^ 48" unfolding E_def using s50 by (intro power_increasing) simp_all
    then have Ele: "4 * E \<le> Q" by (simp add: Q_def)
    have Epos: "0 < E" by (simp add: E_def)
    have neg: "\<not> 0 \<le> - int p + int s" using s50 p by linarith
    have expo: "nat (- (- int p + int s)) = p - s" using s50 p by linarith
    have "\<forall>L. int_gt_float L (round53 (a, - int p)) \<longleftrightarrow> q' < L * D"
      using neg by (simp only: eq int_gt_float_def prod.case if_False expo D_def) simp
    with Epos DE Ele lo hi show ?thesis by blast
  qed
  then obtain q' E D where Epos: "0 < E" and DE: "D * E = P" and Ele: "4 * E \<le> Q"
    and lo: "a div E \<le> q'" and hi: "2 * (q' * E) \<le> 2 * a + E"
    and cmp: "\<And>L. int_gt_float L (round53 (a, - int p)) \<longleftrightarrow> q' < L * D"
    by blast
  have below: "\<not> q' < L * D" if "L * P \<le> a" for L
  proof -
    from that have "(L * D) * E \<le> a" using DE by (simp add: mult.assoc)
    then have "L * D \<le> a div E" using Epos by (rule int_le_div_pos)
    with lo show ?thesis by linarith
  qed
  have above: "q' < L * D" if "2 * a + E < 2 * (L * P)" for L
  proof (rule ccontr)
    assume "\<not> q' < L * D"
    then have "L * D \<le> q'" by simp
    then have "(L * D) * E \<le> q' * E" using Epos by (intro mult_right_mono) simp_all
    then have "L * P \<le> q' * E" using DE by (simp add: mult.assoc)
    with hi that show False by linarith
  qed
  {
    assume "j * M < k * L"
    then have "j * M + 1 \<le> k * L" by simp
    then have "(j * M + 1) * P \<le> (k * L) * P" using P by (intro mult_right_mono) simp_all
    then have "j * (M * P) + P \<le> k * (L * P)" by (simp add: algebra_simps)
    with ka have "k * a - d * M + P \<le> k * (L * P)" by linarith
    with dM M4 P53 have "k * a + 7 * Q < k * (L * P)" by linarith
    moreover have "k * E \<le> 10 * E" using k Epos by (intro mult_right_mono) simp_all
    moreover have "k * (2 * a + E) = 2 * (k * a) + k * E"
      and "k * (2 * (L * P)) = 2 * (k * (L * P))" by (simp_all add: algebra_simps)
    ultimately have "k * (2 * a + E) < k * (2 * (L * P))"
      using Ele Qpos by linarith
    then have "2 * a + E < 2 * (L * P)" using k by (simp only: mult_less_cancel_left_pos)
    then have "q' < L * D" by (rule above)
    then show "int_gt_float L (float_mul (M, 0) (C, - int p))" by (simp add: mul cmp)
  next
    assume "k * L < j * M"
    then have "k * L + 1 \<le> j * M" by simp
    then have "(k * L + 1) * P \<le> (j * M) * P" using P by (intro mult_right_mono) simp_all
    then have "k * (L * P) + P \<le> j * (M * P)" by (simp add: algebra_simps)
    with ka have "k * (L * P) + P \<le> k * a - d * M" by linarith
    with dM M4 P53 have "k * (L * P) \<le> k * a" by linarith
    then have "L * P \<le> a" using k by (simp only: mult_le_cancel_left_pos)
    then have "\<not> q' < L * D" by (rule below)
    then show "\<not> int_gt_float L (float_mul (M, 0) (C, - int p))" by (simp add: mul cmp)
  next
    assume d0: "0 \<le> d" and "k * L \<le> j * M"
    then have "(k * L) * P \<le> (j * M) * P" using P by (intro mult_right_mono) simp_all
    then have "k * (L * P) \<le> j * (M * P)" by (simp add: algebra_simps)
    moreover have "0 \<le> d * M" using d0 M by simp
    ultimately have "k * (L * P) \<le> k * a" using ka by linarith
    then have "L * P \<le> a" using k by (simp only: mult_le_cancel_left_pos)
    then have "\<not> q' < L * D" by (rule below)
    then show "\<not> int_gt_float L (float_mul (M, 0) (C, - int p))" by (simp add: mul cmp)
  }
qed

lemma float_of_len_small: "n < 2 ^ 53 \<Longrightarrow> float_of_len n = (int n, 0)"
proof -
  assume "n < 2 ^ 53"
  then have "int n < 2 ^ nat 53" by (simp flip: of_nat_less_iff)
  then have "bitlen \<bar>int n\<bar> \<le> 53" by (simp only: bitlen_le_iff_power) simp
  then show ?thesis unfolding float_of_len_def by (rule round53_exact)
qed

lemma float_mul_zero: "float_mul (0, 0) (C, e) = (0, e)"
  by (simp add: float_mul_def round53_def)

lemma gt_mul_0_8:
  assumes "0 < M" and "M < 2 ^ 48"
  shows "int_gt_float L (float_mul (M, 0) float_0_8) \<longleftrightarrow> 4 * M < 5 * L"
proof -
  note g = gt_mul_literal [where C = 7205759403792794 and p = 53 and k = 5 and j = 4
      and d = 2 and M = M and L = L, OF assms]
  have a: "4 * M < 5 * L \<Longrightarrow> int_gt_float L (float_mul (M, 0) float_0_8)"
    using g(1) by (simp add: float_0_8_def float_0_1_def float_0_7_def)
  have b: "5 * L \<le> 4 * M \<Longrightarrow> \<not> int_gt_float L (float_mul (M, 0) float_0_8)"
    using g(3) by (simp add: float_0_8_def float_0_1_def float_0_7_def)
  from a b show ?thesis by (cases "4 * M < 5 * L") simp_all
qed

lemma gt_mul_0_1:
  assumes "0 < M" and "M < 2 ^ 48"
  shows "int_gt_float L (float_mul (M, 0) float_0_1) \<longleftrightarrow> M < 10 * L"
proof -
  note g = gt_mul_literal [where C = 7205759403792794 and p = 56 and k = 10 and j = 1
      and d = 4 and M = M and L = L, OF assms]
  have a: "M < 10 * L \<Longrightarrow> int_gt_float L (float_mul (M, 0) float_0_1)"
    using g(1) by (simp add: float_0_8_def float_0_1_def float_0_7_def)
  have b: "10 * L \<le> M \<Longrightarrow> \<not> int_gt_float L (float_mul (M, 0) float_0_1)"
    using g(3) by (simp add: float_0_8_def float_0_1_def float_0_7_def)
  from a b show ?thesis by (cases "M < 10 * L") simp_all
qed

lemma gt_mul_0_7:
  assumes "0 < M" and "M < 2 ^ 48"
  shows "7 * M < 10 * L \<Longrightarrow> int_gt_float L (float_mul (M, 0) float_0_7)"
    and "10 * L < 7 * M \<Longrightarrow> \<not> int_gt_float L (float_mul (M, 0) float_0_7)"
proof -
  note g = gt_mul_literal [where C = 6305039478318694 and p = 53 and k = 10 and j = 7
      and d = "- 4" and M = M and L = L, OF assms]
  show "7 * M < 10 * L \<Longrightarrow> int_gt_float L (float_mul (M, 0) float_0_7)"
    using g(1) by (simp add: float_0_8_def float_0_1_def float_0_7_def)
  show "10 * L < 7 * M \<Longrightarrow> \<not> int_gt_float L (float_mul (M, 0) float_0_7)"
    using g(2) by (simp add: float_0_8_def float_0_1_def float_0_7_def)
qed

lemma float_of_int_small:
  assumes "\<bar>m\<bar> < 2 ^ 53"
  shows "float_of_int m = Inr (m, 0)"
proof -
  from assms have "\<bar>m\<bar> < 2 ^ nat 53" by simp
  then have "bitlen \<bar>m\<bar> \<le> 53" by (simp only: bitlen_le_iff_power) simp
  then have "round53 (m, 0) = (m, 0)" by (rule round53_exact)
  moreover have "\<bar>m\<bar> < 2 ^ 1024"
  proof -
    have "(2::int) ^ 53 \<le> 2 ^ 1024" by (intro power_increasing) simp_all
    with assms show ?thesis by linarith
  qed
  ultimately show ?thesis by (simp add: float_of_int_def)
qed

section \<open>Properties of truncate\_text\<close>

lemma rfind_bounds: "- 1 \<le> rfind c xs \<and> rfind c xs < int (length xs)"
  by (induction xs) (auto simp: rfind_step_def)

lemma rfind_absent: "c \<notin> set xs \<Longrightarrow> rfind c xs = - 1"
  by (induction xs) (auto simp: rfind_step_def)

lemma rfind_present: "c \<in> set xs \<Longrightarrow> 0 \<le> rfind c xs"
  by (induction xs) (auto simp: rfind_step_def)

lemma rfind_append_absent: "c \<notin> set ys \<Longrightarrow> rfind c (xs @ ys) = rfind c xs"
  by (induction xs) (auto simp: rfind_absent)

lemma rfind_is_last:
  "0 \<le> rfind c xs \<Longrightarrow>
     xs ! nat (rfind c xs) = c \<and> c \<notin> set (drop (Suc (nat (rfind c xs))) xs)"
proof (induction xs)
  case Nil
  then show ?case by simp
next
  case (Cons d ds)
  show ?case
  proof (cases "0 \<le> rfind c ds")
    case True
    with Cons.IH have "ds ! nat (rfind c ds) = c"
      and "c \<notin> set (drop (Suc (nat (rfind c ds))) ds)" by simp_all
    with True show ?thesis by (simp add: nat_add_distrib rfind_step_def)
  next
    case False
    with rfind_present [of c ds] have "c \<notin> set ds" by auto
    with False Cons.prems show ?thesis by (auto simp: rfind_step_def split: if_splits)
  qed
qed

lemma space_not_in_dots: "0x20 \<notin> set dots"
  by (simp add: dots_def cps_def)

lemma truncate_text_fits:
  "int (length t) \<le> m \<Longrightarrow> truncate_text self_max t (Some m) = Inr t"
  by (simp add: truncate_text_def)

lemma truncate_text_too_long:
  assumes "3 \<le> m" and "m < 2 ^ 48" and long: "m < int (length t)"
  shows "truncate_text self_max t (Some m) =
     Inr (if 4 * m < 5 * rfind 0x20 (take (nat (m - 3)) t)
          then take (nat (rfind 0x20 (take (nat (m - 3)) t))) t @ dots
          else take (nat (m - 3)) t @ dots)"
proof -
  let ?cut = "take (nat (m - 3)) t"
  let ?ls = "rfind 0x20 ?cut"
  have slice: "py_slice_to t (m - 3) = ?cut" using assms(1) by (simp add: py_slice_to_def)
  have ls: "rfind 0x20 (?cut @ dots) = ?ls"
    by (rule rfind_append_absent) (rule space_not_in_dots)
  have "(2::int) ^ 48 \<le> 2 ^ 53" by (intro power_increasing) simp_all
  with assms have "\<bar>m\<bar> < 2 ^ 53" by linarith
  then have conv: "float_of_int m = Inr (m, 0)" by (rule float_of_int_small)
  have cmp: "int_gt_float ?ls (float_mul (m, 0) float_0_8) \<longleftrightarrow> 4 * m < 5 * ?ls"
    by (rule gt_mul_0_8) (use assms in simp_all)
  have again: "py_slice_to (?cut @ dots) ?ls = take (nat ?ls) t" if "4 * m < 5 * ?ls"
  proof -
    from that assms(1) have pos: "0 \<le> ?ls" by linarith
    from rfind_bounds [of "0x20" ?cut] have lt: "?ls < int (length ?cut)" by simp
    then have "nat ?ls \<le> length ?cut" by linarith
    then have "take (nat ?ls) (?cut @ dots) = take (nat ?ls) ?cut" by simp
    also have "\<dots> = take (min (nat ?ls) (nat (m - 3))) t" by (simp only: take_take)
    also have "min (nat ?ls) (nat (m - 3)) = nat ?ls" using lt by simp
    finally show ?thesis using pos by (simp add: py_slice_to_def)
  qed
  from long show ?thesis
    by (simp add: truncate_text_def Let_def slice ls conv cmp again)
qed

text \<open>
  Claim C7, as amended.  A text with \<open>len(text) <= max_length\<close> is returned unchanged, for
  every \<open>max_length\<close>.  A longer text, for \<open>max_length\<close> from 3 up (below \<open>2 ^ 48\<close>), yields its
  first \<open>max_length - 3\<close> characters followed by \<open>...\<close>, except that when the last space
  within that cut lies at an index strictly greater than 80 percent of \<open>max_length\<close>, the
  result is the text before that space followed by \<open>...\<close>.  An absent \<open>max_length\<close> stands
  for the configured one.
\<close>

theorem truncate_text_cut:
  "(int (length t) \<le> m \<longrightarrow> truncate_text self_max t (Some m) = Inr t) \<and>
   (3 \<le> m \<and> m < 2 ^ 48 \<and> m < int (length t) \<longrightarrow>
      truncate_text self_max t (Some m) =
        Inr (if 4 * m < 5 * rfind 0x20 (take (nat (m - 3)) t)
             then take (nat (rfind 0x20 (take (nat (m - 3)) t))) t @ dots
             else take (nat (m - 3)) t @ dots)) \<and>
   truncate_text self_max t None = truncate_text self_max t (Some self_max)"
proof (intro conjI impI)
  assume "int (length t) \<le> m"
  then show "truncate_text self_max t (Some m) = Inr t" by (rule truncate_text_fits)
next
  assume "3 \<le> m \<and> m < 2 ^ 48 \<and> m < int (length t)"
  then show "truncate_text self_max t (Some m) =
        Inr (if 4 * m < 5 * rfind 0x20 (take (nat (m - 3)) t)
             then take (nat (rfind 0x20 (take (nat (m - 3)) t))) t @ dots
             else take (nat (m - 3)) t @ dots)"
    by (intro truncate_text_too_long) simp_all
next
  show "truncate_text self_max t None = truncate_text self_max t (Some self_max)"
    by (simp add: truncate_text_def)
qed

theorem truncate_text_cut_witness:
  "int (length (cps ''short'')) \<le> 30 \<and>
   truncate_text 280 (cps ''short'') (Some 30) = Inr (cps ''short'') \<and>
   ((3 :: int) \<le> 30 \<and> (30 :: int) < 2 ^ 48 \<and> 30 < int (length (cps ''aaaaaaaaaaaaaaaaaaaaaaaaa bbbbbbbbbbbb''))) \<and>
   truncate_text 280 (cps ''aaaaaaaaaaaaaaaaaaaaaaaaa bbbbbbbbbbbb'') (Some 30) =
     Inr (if 4 * 30 < 5 * rfind 0x20 (take (nat (30 - 3)) (cps ''aaaaaaaaaaaaaaaaaaaaaaaaa bbbbbbbbbbbb''))
          then take (nat (rfind 0x20 (take (nat (30 - 3)) (cps ''aaaaaaaaaaaaaaaaaaaaaaaaa bbbbbbbbbbbb'')))) (cps ''aaaaaaaaaaaaaaaaaaaaaaaaa bbbbbbbbbbbb'') @ dots
          else take (nat (30 - 3)) (cps ''aaaaaaaaaaaaaaaaaaaaaaaaa bbbbbbbbbbbb'') @ dots) \<and>
   truncate_text 280 (cps ''aaaaaaaaaaaaaaaaaaaaaaaaa bbbbbbbbbbbb'') (Some 30) = Inr (cps ''aaaaaaaaaaaaaaaaaaaaaaaaa...'')"
proof -
  note at_short = truncate_text_cut [of "cps ''short''" 30 280]
  note at_long = truncate_text_cut [of "(cps ''aaaaaaaaaaaaaaaaaaaaaaaaa bbbbbbbbbbbb'')" 30 280]
  have a: "int (length (cps ''short'')) \<le> 30" by (simp add: cps_def)
  have b: "(3 :: int) \<le> 30 \<and> (30 :: int) < 2 ^ 48 \<and> 30 < int (length (cps ''aaaaaaaaaaaaaaaaaaaaaaaaa bbbbbbbbbbbb''))"
    by (simp add: cps_def)
  have c: "truncate_text 280 (cps ''short'') (Some 30) = Inr (cps ''short'')"
    by (rule mp [OF conjunct1 [OF at_short] a])
  have d: "truncate_text 280 (cps ''aaaaaaaaaaaaaaaaaaaaaaaaa bbbbbbbbbbbb'') (Some 30) =
     Inr (if 4 * 30 < 5 * rfind 0x20 (take (nat (30 - 3)) (cps ''aaaaaaaaaaaaaaaaaaaaaaaaa bbbbbbbbbbbb''))
          then take (nat (rfind 0x20 (take (nat (30 - 3)) (cps ''aaaaaaaaaaaaaaaaaaaaaaaaa bbbbbbbbbbbb'')))) (cps ''aaaaaaaaaaaaaaaaaaaaaaaaa bbbbbbbbbbbb'') @ dots
          else take (nat (30 - 3)) (cps ''aaaaaaaaaaaaaaaaaaaaaaaaa bbbbbbbbbbbb'') @ dots)"
    by (rule mp [OF conjunct1 [OF conjunct2 [OF at_long]] b])
  have e: "truncate_text 280 (cps ''aaaaaaaaaaaaaaaaaaaaaaaaa bbbbbbbbbbbb'') (Some 30) = Inr (cps ''aaaaaaaaaaaaaaaaaaaaaaaaa...'')"
    by code_simp
  show ?thesis
    by (rule conjI [OF a conjI [OF c conjI [OF b conjI [OF d e]]]])
qed

text \<open>
  Claim C7 as stated fails in two places.  With \<open>max_length = 25\<close> a space at index 20 lies
  at 80 percent of \<open>max_length\<close>, yet the cut is not shortened, because the source compares
  with \<open>>\<close>.  With \<open>max_length = 2\<close> the slice \<open>text[:max_length - 3]\<close> has a negative bound
  and drops the last character instead of keeping none.
\<close>

theorem truncate_text_differs_from_spec:
  "truncate_text 280 (cps ''aaaaaaaaaaaaaaaaaaaa bbbbbbbbbb'') (Some 25) = Inr (cps ''aaaaaaaaaaaaaaaaaaaa b...'') \<and>
   truncate_spec (cps ''aaaaaaaaaaaaaaaaaaaa bbbbbbbbbb'') 25 = cps ''aaaaaaaaaaaaaaaaaaaa...'' \<and>
   truncate_text 280 (cps ''aaaaaaaaaaaaaaaaaaaa bbbbbbbbbb'') (Some 25) \<noteq> Inr (truncate_spec (cps ''aaaaaaaaaaaaaaaaaaaa bbbbbbbbbb'') 25) \<and>
   truncate_text 280 (cps ''hello'') (Some 2) = Inr (cps ''hell...'') \<and>
   truncate_spec (cps ''hello'') 2 = cps ''...'' \<and>
   truncate_text 280 (cps ''hello'') (Some 2) \<noteq> Inr (truncate_spec (cps ''hello'') 2)"
  by code_simp

text \<open>
  Claim C9, as amended.  \<open>truncate_text\<close> does not check \<open>max_length\<close>: for every text and
  every negative \<open>max_length\<close> above \<open>-2 ^ 53\<close> the call returns normally, and its result ends
  in \<open>...\<close>.
\<close>

theorem truncate_text_negative_returns:
  assumes "m < 0" and "- (2 ^ 53) < m"
  shows "\<exists>p. truncate_text self_max t (Some m) = Inr (p @ dots)"
proof -
  from assms have "\<bar>m\<bar> < 2 ^ 53" by linarith
  then have conv: "float_of_int m = Inr (m, 0)" by (rule float_of_int_small)
  from assms(1) have "\<not> int (length t) \<le> m" by simp
  then show ?thesis
    by (simp add: truncate_text_def Let_def conv)
qed

theorem truncate_text_negative_returns_witness:
  "(- 1 :: int) < 0 \<and> - (2 ^ 53) < (- 1 :: int) \<and>
   (\<exists>p. truncate_text 280 (cps ''hello world'') (Some (- 1)) = Inr (p @ dots))"
proof -
  have a: "(- 1 :: int) < 0" by simp
  have b: "- (2 ^ 53) < (- 1 :: int)" by simp
  show ?thesis
    by (rule conjI [OF a conjI [OF b truncate_text_negative_returns [OF a b]]])
qed

text \<open>
  Claim C9 as stated fails: with \<open>max_length = -1\<close> the call returns a string.
\<close>

theorem truncate_text_negative_max_length:
  "truncate_text 280 (cps ''hello world'') (Some (- 1)) = Inr (cps ''hello...'')"
  by code_simp

text \<open>
  The one failure of the body: a \<open>max_length\<close> that no double can hold.
\<close>

lemma truncate_text_overflow:
  "truncate_text 280 (cps ''hello world'') (Some (- (2 ^ 1024))) = Inl OverflowError"
  by code_simp

section \<open>Properties of the spam-like rule\<close>

lemma strip_empty_all_space:
  assumes "strip t = []"
  shows "\<forall>c \<in> set t. py_isspace c"
proof -
  from assms have "dropWhile py_isspace (rev (dropWhile py_isspace t)) = []"
    by (simp add: strip_def)
  then have all: "\<forall>c \<in> set (dropWhile py_isspace t). py_isspace c"
    by (simp add: dropWhile_eq_Nil_conv)
  have "dropWhile py_isspace t = []"
  proof (rule ccontr)
    assume ne: "dropWhile py_isspace t \<noteq> []"
    then have "\<not> py_isspace (hd (dropWhile py_isspace t))" by (metis hd_dropWhile)
    moreover from ne have "hd (dropWhile py_isspace t) \<in> set (dropWhile py_isspace t)"
      by (rule hd_in_set)
    ultimately show False using all by blast
  qed
  then show ?thesis by (simp add: dropWhile_eq_Nil_conv)
qed

lemma py_isspace_not_counted:
  "py_isspace c \<Longrightarrow> \<not> ascii_upper c \<and> c \<noteq> 0x21 \<and> c \<noteq> 0x3F \<and> c \<noteq> 0x23"
  by (auto simp: py_isspace_def ascii_upper_def)

lemma findall_tagged_absent: "m \<notin> set t \<Longrightarrow> findall_tagged U m t = []"
  by (induction U m t rule: findall_tagged.induct) auto

lemma blank_no_matches:
  assumes "t = [] \<or> strip t = []"
  shows "upper_matches t = [] \<and> punct_matches t = [] \<and> hashtag_matches U t = []"
proof -
  from assms have "strip t = []" by (auto simp: strip_def)
  then have sp: "\<forall>c \<in> set t. py_isspace c" by (rule strip_empty_all_space)
  then have "\<forall>c \<in> set t. \<not> ascii_upper c \<and> c \<noteq> 0x21 \<and> c \<noteq> 0x3F \<and> c \<noteq> 0x23"
    using py_isspace_not_counted by blast
  then have "upper_matches t = []" "punct_matches t = []" "0x23 \<notin> set t"
    by (auto simp: upper_matches_def punct_matches_def filter_empty_conv)
  then show ?thesis by (simp add: hashtag_matches_def findall_tagged_absent)
qed

lemma float_of_len_zero: "float_of_len 0 = (0, 0)"
  using float_of_len_small [of 0] by simp

lemma is_spam_like_exact:
  assumes len: "length t < 2 ^ 48"
  shows "7 * length t < 10 * length (upper_matches t) \<or>
         length t < 10 * length (punct_matches t) \<or>
         10 < length (hashtag_matches U t) \<Longrightarrow> is_spam_like U t"
    and "is_spam_like U t \<Longrightarrow> 10 * length (upper_matches t) \<noteq> 7 * length t \<Longrightarrow>
         7 * length t < 10 * length (upper_matches t) \<or>
         length t < 10 * length (punct_matches t) \<or>
         10 < length (hashtag_matches U t)"
proof -
  let ?n = "length t"
  let ?u = "length (upper_matches t)"
  let ?p = "length (punct_matches t)"
  have "(2::nat) ^ 48 \<le> 2 ^ 53" by (intro power_increasing) simp_all
  with len have "?n < 2 ^ 53" by linarith
  then have conv: "float_of_len ?n = (int ?n, 0)" by (rule float_of_len_small)
  from len have ilen: "int ?n < 2 ^ 48" by (simp flip: of_nat_less_iff)
  have up: "7 * ?n < 10 * ?u \<Longrightarrow>
      int_gt_float (int ?u) (float_mul (float_of_len ?n) float_0_7)"
  proof -
    assume a: "7 * ?n < 10 * ?u"
    then have "t \<noteq> []" by (auto simp: upper_matches_def)
    then have pos: "0 < int ?n" by simp
    from a have "7 * int ?n < 10 * int ?u" by linarith
    with gt_mul_0_7(1) [OF pos ilen] show ?thesis by (simp add: conv)
  qed
  have down: "int_gt_float (int ?u) (float_mul (float_of_len ?n) float_0_7) \<Longrightarrow>
      10 * ?u \<noteq> 7 * ?n \<Longrightarrow> 7 * ?n < 10 * ?u"
  proof -
    assume g: "int_gt_float (int ?u) (float_mul (float_of_len ?n) float_0_7)"
      and ne: "10 * ?u \<noteq> 7 * ?n"
    show "7 * ?n < 10 * ?u"
    proof (cases "t = []")
      case True
      with g show ?thesis
        by (simp add: float_of_len_zero float_0_7_def float_mul_zero int_gt_float_def
            upper_matches_def)
    next
      case False
      then have pos: "0 < int ?n" by simp
      show ?thesis
      proof (rule ccontr)
        assume "\<not> 7 * ?n < 10 * ?u"
        with ne have "10 * ?u < 7 * ?n" by linarith
        then have "10 * int ?u < 7 * int ?n" by linarith
        with gt_mul_0_7(2) [OF pos ilen] g show False by (simp add: conv)
      qed
    qed
  qed
  have punct: "int_gt_float (int ?p) (float_mul (float_of_len ?n) float_0_1) \<longleftrightarrow>
      ?n < 10 * ?p"
  proof (cases "t = []")
    case True
    then show ?thesis
      by (simp add: float_of_len_zero float_0_1_def float_mul_zero int_gt_float_def
          punct_matches_def)
  next
    case False
    then have pos: "0 < int ?n" by simp
    have "int_gt_float (int ?p) (float_mul (int ?n, 0) float_0_1) \<longleftrightarrow>
        int ?n < 10 * int ?p"
      by (rule gt_mul_0_1 [OF pos ilen])
    also have "\<dots> \<longleftrightarrow> ?n < 10 * ?p" by linarith
    finally show ?thesis by (simp add: conv)
  qed
  show "7 * ?n < 10 * ?u \<or> ?n < 10 * ?p \<or> 10 < length (hashtag_matches U t)
          \<Longrightarrow> is_spam_like U t"
    using up punct by (auto simp: is_spam_like_def)
  show "is_spam_like U t \<Longrightarrow> 10 * ?u \<noteq> 7 * ?n \<Longrightarrow>
         7 * ?n < 10 * ?u \<or> ?n < 10 * ?p \<or> 10 < length (hashtag_matches U t)"
    using down punct by (auto simp: is_spam_like_def split: if_splits)
qed

lemma validate_post_errors:
  "snd (validate_post U m t) =
     (if t = [] \<or> strip t = [] then [err_empty]
      else (if int (length t) > m then [err_too_long m] else []) @
           (if length (strip t) < 3 then [err_too_short] else []) @
           (if has_excessive_repetition t then [err_repetition] else []) @
           (if is_spam_like U t then [err_spam] else []))"
  by (simp add: validate_post_def Let_def)

lemma validate_post_spam_error:
  "err_spam \<in> set (snd (validate_post U m t)) \<longleftrightarrow>
     \<not> (t = [] \<or> strip t = []) \<and> is_spam_like U t"
  by (simp add: validate_post_errors err_messages_distinct err_messages_distinct [symmetric])

lemma validate_post_spam_once: "count_list (snd (validate_post U m t)) err_spam \<le> 1"
  by (simp add: validate_post_errors err_messages_distinct err_messages_distinct [symmetric])

text \<open>
  Claim C6, as amended.  For every text (shorter than \<open>2 ^ 48\<close> characters):
  \<open>validate_post\<close> reports the spam-like error whenever the ASCII uppercase letters \<open>A-Z\<close>
  exceed 70 percent of the length of the text, or the characters \<open>!\<close> and \<open>?\<close> exceed 10
  percent of it, or the text has more than 10 hashtag occurrences (matches of \<open>#\w+\<close>);
  when the error is reported and the letters \<open>A-Z\<close> are not exactly 70 percent of the
  length, one of the three conditions holds; and the error is listed at most once.
\<close>

theorem validate_post_spam_like_rule:
  assumes "length t < 2 ^ 48"
  shows "(7 * length t < 10 * length (upper_matches t) \<or>
          length t < 10 * length (punct_matches t) \<or>
          10 < length (hashtag_matches U t)
          \<longrightarrow> err_spam \<in> set (snd (validate_post U m t))) \<and>
         (err_spam \<in> set (snd (validate_post U m t)) \<and>
          10 * length (upper_matches t) \<noteq> 7 * length t
          \<longrightarrow> 7 * length t < 10 * length (upper_matches t) \<or>
              length t < 10 * length (punct_matches t) \<or>
              10 < length (hashtag_matches U t)) \<and>
         count_list (snd (validate_post U m t)) err_spam \<le> 1"
proof (intro conjI impI)
  assume a: "7 * length t < 10 * length (upper_matches t) \<or>
          length t < 10 * length (punct_matches t) \<or>
          10 < length (hashtag_matches U t)"
  have "\<not> (t = [] \<or> strip t = [])"
  proof
    assume "t = [] \<or> strip t = []"
    then have "upper_matches t = [] \<and> punct_matches t = [] \<and> hashtag_matches U t = []"
      by (rule blank_no_matches)
    with a show False by simp
  qed
  moreover from a have "is_spam_like U t" by (rule is_spam_like_exact(1) [OF assms])
  ultimately show "err_spam \<in> set (snd (validate_post U m t))"
    by (simp add: validate_post_spam_error)
next
  assume "err_spam \<in> set (snd (validate_post U m t)) \<and>
          10 * length (upper_matches t) \<noteq> 7 * length t"
  then have "is_spam_like U t" and "10 * length (upper_matches t) \<noteq> 7 * length t"
    by (simp_all add: validate_post_spam_error)
  then show "7 * length t < 10 * length (upper_matches t) \<or>
              length t < 10 * length (punct_matches t) \<or>
              10 < length (hashtag_matches U t)"
    by (rule is_spam_like_exact(2) [OF assms])
next
  show "count_list (snd (validate_post U m t)) err_spam \<le> 1"
    by (rule validate_post_spam_once)
qed

theorem validate_post_spam_like_rule_witness:
  "length (cps ''HEY!!!! spam spam spam'') < 2 ^ 48 \<and>
   (7 * length (cps ''HEY!!!! spam spam spam'') < 10 * length (upper_matches (cps ''HEY!!!! spam spam spam'')) \<or>
    length (cps ''HEY!!!! spam spam spam'') < 10 * length (punct_matches (cps ''HEY!!!! spam spam spam'')) \<or>
    10 < length (hashtag_matches ucd_fragment (cps ''HEY!!!! spam spam spam''))) \<and>
   err_spam \<in> set (snd (validate_post ucd_fragment 280 (cps ''HEY!!!! spam spam spam''))) \<and>
   10 * length (upper_matches (cps ''HEY!!!! spam spam spam'')) \<noteq> 7 * length (cps ''HEY!!!! spam spam spam'') \<and>
   count_list (snd (validate_post ucd_fragment 280 (cps ''HEY!!!! spam spam spam''))) err_spam \<le> 1"
proof -
  have a: "length (cps ''HEY!!!! spam spam spam'') < 2 ^ 48" by (simp add: cps_def)
  note rule = validate_post_spam_like_rule [OF a, of ucd_fragment 280]
  have b: "7 * length (cps ''HEY!!!! spam spam spam'') < 10 * length (upper_matches (cps ''HEY!!!! spam spam spam'')) \<or>
    length (cps ''HEY!!!! spam spam spam'') < 10 * length (punct_matches (cps ''HEY!!!! spam spam spam'')) \<or>
    10 < length (hashtag_matches ucd_fragment (cps ''HEY!!!! spam spam spam''))"
    by (simp add: cps_def punct_matches_def)
  have c: "err_spam \<in> set (snd (validate_post ucd_fragment 280 (cps ''HEY!!!! spam spam spam'')))"
    by (rule mp [OF conjunct1 [OF rule] b])
  have d: "10 * length (upper_matches (cps ''HEY!!!! spam spam spam'')) \<noteq> 7 * length (cps ''HEY!!!! spam spam spam'')"
    by (simp add: cps_def upper_matches_def ascii_upper_def)
  have "7 * length (cps ''HEY!!!! spam spam spam'') < 10 * length (upper_matches (cps ''HEY!!!! spam spam spam'')) \<or>
    length (cps ''HEY!!!! spam spam spam'') < 10 * length (punct_matches (cps ''HEY!!!! spam spam spam'')) \<or>
    10 < length (hashtag_matches ucd_fragment (cps ''HEY!!!! spam spam spam''))"
    by (rule mp [OF conjunct1 [OF conjunct2 [OF rule]] conjI [OF c d]])
  have e: "count_list (snd (validate_post ucd_fragment 280 (cps ''HEY!!!! spam spam spam''))) err_spam \<le> 1"
    by (rule conjunct2 [OF conjunct2 [OF rule]])
  show ?thesis
    by (rule conjI [OF a conjI [OF b conjI [OF c conjI [OF d e]]]])
qed

subsection \<open>Two posts on which the rule of the specification fails\<close>

lemma shouting_post_counts:
  "length shouting_post = 90" "length (upper_matches shouting_post) = 63"
  "length (filter (is_upper U) shouting_post) = 63"
  "length (punct_matches shouting_post) = 0"
  by (simp_all add: shouting_post_def cps_def upper_matches_def punct_matches_def
      is_upper_def ascii_upper_def)

lemma shouting_post_hashtags: "hashtag_matches U shouting_post = []"
  by (simp add: shouting_post_def cps_def hashtag_matches_def)

lemma product_90_0_7: "int_gt_float 63 (float_mul (float_of_len 90) float_0_7)"
  by code_simp

lemma shouting_post_is_spam_like: "is_spam_like U shouting_post"
  by (simp add: is_spam_like_def shouting_post_counts product_90_0_7)

lemma shouting_post_not_blank:
  "shouting_post \<noteq> [] \<and> strip shouting_post \<noteq> [] \<and> length (strip shouting_post) = 90"
  by (simp add: shouting_post_def cps_def strip_def py_isspace_def)

lemma shouting_post_no_repetition: "\<not> has_excessive_repetition shouting_post"
  by (simp add: shouting_post_def cps_def has_excessive_repetition_def py_isspace_def)

lemma shouting_post_validate: "validate_post U 280 shouting_post = (False, [err_spam])"
  by (simp add: validate_post_def Let_def shouting_post_not_blank shouting_post_no_repetition
      shouting_post_is_spam_like shouting_post_counts)

lemma shouting_post_spec: "\<not> spam_like_spec U shouting_post"
  by (simp add: spam_like_spec_def shouting_post_counts shouting_post_hashtags)

lemma summer_post_counts:
  "length summer_post = 3" "length (upper_matches summer_post) = 1"
  "length (filter (is_upper ucd_fragment) summer_post) = 3"
  "length (punct_matches summer_post) = 0" "hashtag_matches U summer_post = []"
  by (simp_all add: summer_post_def upper_matches_def punct_matches_def hashtag_matches_def
      is_upper_def ascii_upper_def ucd_fragment_def)

lemma products_3:
  "\<not> int_gt_float 1 (float_mul (float_of_len 3) float_0_7)"
  "\<not> int_gt_float 0 (float_mul (float_of_len 3) float_0_1)"
  by code_simp+

lemma summer_post_not_spam_like: "\<not> is_spam_like U summer_post"
  by (simp add: is_spam_like_def summer_post_counts products_3)

lemma summer_post_validate: "validate_post U 280 summer_post = (True, [])"
proof -
  have "summer_post \<noteq> [] \<and> strip summer_post \<noteq> [] \<and> length (strip summer_post) = 3"
    by (simp add: summer_post_def strip_def py_isspace_def)
  moreover have "\<not> has_excessive_repetition summer_post"
    by (simp add: summer_post_def has_excessive_repetition_def py_isspace_def)
  ultimately show ?thesis
    by (simp add: validate_post_def Let_def summer_post_not_spam_like summer_post_counts)
qed

lemma summer_post_spec: "spam_like_spec ucd_fragment summer_post"
  by (simp add: spam_like_spec_def summer_post_counts)

text \<open>
  Claim C6 as stated fails in two places.  \<open>shouting_post\<close> has 90 characters, 63 of them
  uppercase letters, which is 70 percent and not more, and no \<open>!\<close>, \<open>?\<close> or hashtag; the
  double \<open>90 * 0.7\<close> is \<open>62.99999999999999\<close>, so the error is reported although no condition
  of the rule holds.  \<open>summer_post\<close> consists of uppercase letters only, but two of the three
  are outside \<open>A-Z\<close>, which is all that the source counts: the post is found valid.
\<close>

theorem validate_post_spam_differs_from_spec:
  "validate_post ucd_fragment 280 shouting_post = (False, [err_spam]) \<and>
   \<not> spam_like_spec ucd_fragment shouting_post \<and>
   validate_post ucd_fragment 280 summer_post = (True, []) \<and>
   spam_like_spec ucd_fragment summer_post"
  by (simp add: shouting_post_validate shouting_post_spec summer_post_validate
      summer_post_spec)

end
